theory Spec2Isabelle
  imports Complex_Main "HOL-Library.Sublist" "HOL-Library.Char_ord" "HOL-Library.List_Lexorder"
begin

unbundle bit_operations_syntax

chapter \<open>Wellspring: thoughts, bloom-filter sync, visibility and trust\<close>

text \<open>
  A shallow embedding of the parts of the Wellspring repository that its specification
  makes checkable statements about:
  \<^item> \<^verbatim>\<open>wellspring_node.py\<close>: \<^verbatim>\<open>BloomFilter\<close>, \<^verbatim>\<open>SignedThought.sign\<close>,
    \<^verbatim>\<open>WellspringNode._store_thought\<close>, \<^verbatim>\<open>_verify_signature\<close>, \<^verbatim>\<open>get_missing_for_peer\<close>;
  \<^item> \<^verbatim>\<open>wellspring_node_v2.py\<close>: \<^verbatim>\<open>_can_share_with_peer\<close>, \<^verbatim>\<open>get_missing_for_peer\<close>;
  \<^item> \<^verbatim>\<open>thread-3/core.py\<close>: \<^verbatim>\<open>create_thought\<close>, \<^verbatim>\<open>sign_content\<close>, \<^verbatim>\<open>verify_signature\<close>,
    \<^verbatim>\<open>store_thought\<close>;
  \<^item> \<^verbatim>\<open>thread-2/wellspring_embeddings.py\<close>: the scoring loop of \<^verbatim>\<open>EmbeddingPipeline.query\<close>;
  \<^item> \<^verbatim>\<open>wellspring_trust_network.py\<close> and \<^verbatim>\<open>wellspring_repeaters.py\<close>: the two
    \<^verbatim>\<open>compute_trust\<close> functions;
  \<^item> \<^verbatim>\<open>wellspring_vouch_sybil.py\<close>: \<^verbatim>\<open>TrustGraph.compute_trust\<close> with its penalties.

  Conventions. Python exceptions are values of \<open>py_error\<close> in a sum type (\<open>Inl\<close> is the
  raise). Python \<^verbatim>\<open>float\<close>s are modelled as \<open>real\<close>: products and comparisons are the
  exact ones, rounding is not modelled. Functions of third-party libraries (SHA-256, BLAKE3,
  Ed25519, MurmurHash3, \<^verbatim>\<open>json.dumps\<close>) are parameters of the definitions that call them.
  A Python \<^verbatim>\<open>dict\<close> whose iteration order matters is an association list in insertion
  order; the iteration order of a Python \<^verbatim>\<open>set\<close> of strings is not determined by the
  program, so it is the parameter \<open>set_iter\<close>, which maps the elements in insertion order to
  the order in which a \<^verbatim>\<open>for\<close> loop visits them.
\<close>

section \<open>Errors and JSON values\<close>

datatype py_error =
  ZeroDivisionError | IndexError | ValueError | TypeError | KeyError | OverflowError

text \<open>Sequencing of computations that may raise.\<close>

definition ebind :: "py_error + 'a \<Rightarrow> ('a \<Rightarrow> py_error + 'b) \<Rightarrow> py_error + 'b" where
  "ebind m f = (case m of Inl e \<Rightarrow> Inl e | Inr x \<Rightarrow> f x)"

fun filter_err :: "('a \<Rightarrow> py_error + bool) \<Rightarrow> 'a list \<Rightarrow> py_error + 'a list" where
  "filter_err p [] = Inr []"
| "filter_err p (x # xs) =
     ebind (p x) (\<lambda>b. ebind (filter_err p xs) (\<lambda>ys. Inr (if b then x # ys else ys)))"

fun map_err :: "('a \<Rightarrow> py_error + 'b) \<Rightarrow> 'a list \<Rightarrow> py_error + 'b list" where
  "map_err f [] = Inr []"
| "map_err f (x # xs) = ebind (f x) (\<lambda>y. ebind (map_err f xs) (\<lambda>ys. Inr (y # ys)))"

text \<open>
  The values \<^verbatim>\<open>json\<close> produces and consumes. \<^verbatim>\<open>None\<close> is \<open>JNull\<close>. A JSON object
  is a Python \<^verbatim>\<open>dict\<close> with string keys.
\<close>

datatype json =
    JNull
  | JBool bool
  | JInt int
  | JStr string
  | JArr "json list"
  | JObj "(string \<times> json) list"

text \<open>\<^verbatim>\<open>d[k] = v\<close> on an insertion-ordered dict: an existing key keeps its position.\<close>

fun dict_set :: "('k \<times> 'v) list \<Rightarrow> 'k \<Rightarrow> 'v \<Rightarrow> ('k \<times> 'v) list" where
  "dict_set [] k v = [(k, v)]"
| "dict_set ((k', v') # kvs) k v =
     (if k' = k then (k, v) # kvs else (k', v') # dict_set kvs k v)"

text \<open>\<^verbatim>\<open>d[k]\<close>, raising \<^verbatim>\<open>KeyError\<close> on a missing key.\<close>

definition dict_get :: "('k \<times> 'v) list \<Rightarrow> 'k \<Rightarrow> py_error + 'v" where
  "dict_get d k = (case map_of d k of None \<Rightarrow> Inl KeyError | Some v \<Rightarrow> Inr v)"

text \<open>\<^verbatim>\<open>s.add(x)\<close> on a set kept as the list of its elements in insertion order.\<close>

definition set_add :: "'a list \<Rightarrow> 'a \<Rightarrow> 'a list" where
  "set_add s x = (if x \<in> set s then s else s @ [x])"

section \<open>Bloom filter (\<^verbatim>\<open>wellspring_node.py\<close>, \<^verbatim>\<open>wellspring_node_v2.py\<close>)\<close>

record BloomFilter =
  size :: nat
  hash_count :: nat
  bits :: "nat list"

definition BloomFilter_init :: "nat \<Rightarrow> nat \<Rightarrow> BloomFilter" where
  "BloomFilter_init sz hc = \<lparr>size = sz, hash_count = hc, bits = replicate sz 0\<rparr>"

text \<open>
  \<^verbatim>\<open>idx = mmh3.hash(item, i) % self.size\<close>. \<^verbatim>\<open>mmh3.hash\<close> returns a signed 32-bit
  integer; Python's \<^verbatim>\<open>%\<close> takes the sign of the divisor, as \<open>mod\<close> on \<open>int\<close> does, and
  raises on a zero divisor.
\<close>

definition bloom_idx ::
  "(string \<Rightarrow> nat \<Rightarrow> int) \<Rightarrow> BloomFilter \<Rightarrow> string \<Rightarrow> nat \<Rightarrow> py_error + nat" where
  "bloom_idx mmh3_hash f item i =
     (if size f = 0 then Inl ZeroDivisionError
      else Inr (nat (mmh3_hash item i mod int (size f))))"

fun add_loop ::
  "(string \<Rightarrow> nat \<Rightarrow> int) \<Rightarrow> string \<Rightarrow> nat list \<Rightarrow> BloomFilter \<Rightarrow> py_error + BloomFilter" where
  "add_loop mmh3_hash item [] f = Inr f"
| "add_loop mmh3_hash item (i # rest) f =
     (case bloom_idx mmh3_hash f item i of
        Inl e \<Rightarrow> Inl e
      | Inr idx \<Rightarrow>
          if idx < length (bits f)
          then add_loop mmh3_hash item rest (f\<lparr>bits := (bits f)[idx := 1]\<rparr>)
          else Inl IndexError)"

definition add ::
  "(string \<Rightarrow> nat \<Rightarrow> int) \<Rightarrow> string \<Rightarrow> BloomFilter \<Rightarrow> py_error + BloomFilter" where
  "add mmh3_hash item f = add_loop mmh3_hash item [0..<hash_count f] f"

fun contains_loop ::
  "(string \<Rightarrow> nat \<Rightarrow> int) \<Rightarrow> string \<Rightarrow> nat list \<Rightarrow> BloomFilter \<Rightarrow> py_error + bool" where
  "contains_loop mmh3_hash item [] f = Inr True"
| "contains_loop mmh3_hash item (i # rest) f =
     (case bloom_idx mmh3_hash f item i of
        Inl e \<Rightarrow> Inl e
      | Inr idx \<Rightarrow>
          if idx < length (bits f)
          then (if bits f ! idx = 0 then Inr False else contains_loop mmh3_hash item rest f)
          else Inl IndexError)"

definition maybe_contains ::
  "(string \<Rightarrow> nat \<Rightarrow> int) \<Rightarrow> string \<Rightarrow> BloomFilter \<Rightarrow> py_error + bool" where
  "maybe_contains mmh3_hash item f = contains_loop mmh3_hash item [0..<hash_count f] f"

text \<open>The inner loop of \<^verbatim>\<open>to_hex\<close>: bit \<open>j\<close> of the byte is \<^verbatim>\<open>bits[i + j]\<close>.\<close>

definition pack_byte :: "nat list \<Rightarrow> nat \<Rightarrow> nat" where
  "pack_byte bs i =
     fold (\<lambda>j byte_val. if i + j < length bs then byte_val OR push_bit j (bs ! (i + j)) else byte_val)
          [0..<8] 0"

text \<open>\<^verbatim>\<open>bytes.hex()\<close>: two lower-case hexadecimal digits per byte.\<close>

definition hexdigit :: "nat \<Rightarrow> char" where
  "hexdigit n = (if n < 10 then char_of (48 + n) else char_of (87 + n))"

definition bytes_hex :: "nat list \<Rightarrow> string" where
  "bytes_hex bs = concat (map (\<lambda>b. [hexdigit (b div 16), hexdigit (b mod 16)]) bs)"

text \<open>\<^verbatim>\<open>bytes(byte_arr)\<close> raises \<^verbatim>\<open>ValueError\<close> on an element outside \<open>0..255\<close>.\<close>

definition to_hex :: "BloomFilter \<Rightarrow> py_error + string" where
  "to_hex f =
     (let byte_arr = map (\<lambda>k. pack_byte (bits f) (8 * k)) [0..<(length (bits f) + 7) div 8]
      in if \<forall>b \<in> set byte_arr. b < 256 then Inr (bytes_hex byte_arr) else Inl ValueError)"

text \<open>
  \<^verbatim>\<open>bytes.fromhex\<close>: pairs of hexadecimal digits of either case, ASCII whitespace skipped
  between pairs, \<^verbatim>\<open>ValueError\<close> on anything else.
\<close>

definition hexval :: "char \<Rightarrow> nat option" where
  "hexval c =
     (let k = (of_char c :: nat)
      in if 48 \<le> k \<and> k \<le> 57 then Some (k - 48)
         else if 97 \<le> k \<and> k \<le> 102 then Some (k - 87)
         else if 65 \<le> k \<and> k \<le> 70 then Some (k - 55)
         else None)"

definition is_space :: "char \<Rightarrow> bool" where
  "is_space c = ((of_char c :: nat) \<in> {9, 10, 11, 12, 13, 32})"

fun bytes_fromhex :: "string \<Rightarrow> py_error + nat list" where
  "bytes_fromhex [] = Inr []"
| "bytes_fromhex [c] = (if is_space c then Inr [] else Inl ValueError)"
| "bytes_fromhex (c # d # cs) =
     (if is_space c then bytes_fromhex (d # cs)
      else case (hexval c, hexval d) of
             (Some a, Some b) \<Rightarrow>
               (case bytes_fromhex cs of Inl e \<Rightarrow> Inl e | Inr bs \<Rightarrow> Inr ((16 * a + b) # bs))
           | _ \<Rightarrow> Inl ValueError)"

definition unpack_byte :: "nat \<Rightarrow> nat list" where
  "unpack_byte byte_val = map (\<lambda>j. drop_bit j byte_val AND 1) [0..<8]"

definition from_hex :: "string \<Rightarrow> nat \<Rightarrow> nat \<Rightarrow> py_error + BloomFilter" where
  "from_hex hex_str sz hc =
     (case bytes_fromhex hex_str of
        Inl e \<Rightarrow> Inl e
      | Inr byte_arr \<Rightarrow>
          Inr \<lparr>size = sz, hash_count = hc, bits = take sz (concat (map unpack_byte byte_arr))\<rparr>)"

text \<open>The bit array holds only the integers 0 and 1.\<close>

definition bits01 :: "nat list \<Rightarrow> bool" where
  "bits01 bs = (\<forall>b \<in> set bs. b = 0 \<or> b = 1)"


section \<open>Signed thoughts (\<^verbatim>\<open>wellspring_node.py\<close>, \<^verbatim>\<open>wellspring_node_v2.py\<close>)\<close>

text \<open>The dataclass \<^verbatim>\<open>SignedThought\<close>; \<open>signature\<close> and \<open>cid\<close> are \<^verbatim>\<open>None\<close> until \<^verbatim>\<open>sign\<close> runs.\<close>

record SignedThought =
  type :: string
  content :: "(string \<times> json) list"
  created_by :: string
  because :: "string list"
  visibility :: "string option"
  created_at :: string
  signature :: "string option"
  cid :: "string option"

text \<open>
  The dict \<^verbatim>\<open>sign_data\<close> that \<^verbatim>\<open>sign\<close> and \<^verbatim>\<open>_verify_signature\<close> both build: the key
  \<^verbatim>\<open>visibility\<close> is present only when the value is truthy (neither \<^verbatim>\<open>None\<close> nor \<^verbatim>\<open>""\<close>).
\<close>

definition sign_data ::
  "string \<Rightarrow> (string \<times> json) list \<Rightarrow> string \<Rightarrow> string list \<Rightarrow> string \<Rightarrow> string option
     \<Rightarrow> (string \<times> json) list" where
  "sign_data ty co cb be ca vis =
     (let d = [(''type'', JStr ty), (''content'', JObj co), (''created_by'', JStr cb),
               (''because'', JArr (map JStr be)), (''created_at'', JStr ca)]
      in case vis of
           None \<Rightarrow> d
         | Some v \<Rightarrow> if v \<noteq> [] then dict_set d ''visibility'' (JStr v) else d)"

text \<open>
  \<^verbatim>\<open>compute_cid\<close> of the node modules. \<open>dumps\<close> is
  \<^verbatim>\<open>json.dumps(_, sort_keys=True, separators=(',', ':'))\<close> and \<open>sha256_hex\<close> is
  \<^verbatim>\<open>hashlib.sha256(_.encode()).hexdigest()\<close>.
\<close>

definition compute_cid ::
  "(json \<Rightarrow> string) \<Rightarrow> (string \<Rightarrow> string) \<Rightarrow> (string \<times> json) list \<Rightarrow> string" where
  "compute_cid dumps sha256_hex data = ''baf_'' @ take 32 (sha256_hex (dumps (JObj data)))"


text \<open>
  \<^verbatim>\<open>SignedThought.sign\<close>. \<open>ed25519_sign_b64 k m\<close> is
  \<^verbatim>\<open>base64.b64encode(k.sign(m)).decode()\<close>. The message signed is the canonical form of
  \<^verbatim>\<open>sign_data\<close>; the CID is computed afterwards, from \<^verbatim>\<open>sign_data\<close> extended by the
  signature.
\<close>

definition sign ::
  "(json \<Rightarrow> string) \<Rightarrow> (string \<Rightarrow> string) \<Rightarrow> ('sk \<Rightarrow> string \<Rightarrow> string) \<Rightarrow> SignedThought \<Rightarrow> 'sk
     \<Rightarrow> SignedThought" where
  "sign dumps sha256_hex ed25519_sign_b64 self private_key =
     (let sd = sign_data (type self) (content self) (created_by self) (because self)
                 (created_at self) (visibility self);
          message = dumps (JObj sd);
          sig = ed25519_sign_b64 private_key message;
          cid_data = dict_set sd ''signature'' (JStr sig)
      in self\<lparr>signature := Some sig, cid := Some (compute_cid dumps sha256_hex cid_data)\<rparr>)"

section \<open>The thread-3 core (\<^verbatim>\<open>thread-3/core.py\<close>)\<close>

record Identity =
  name :: string
  pubkey :: string
  cid :: string
  privkey :: "string option"

record Thought =
  cid :: string
  type :: string
  content :: json
  created_by :: string
  created_at :: int
  because :: "string list"
  signature :: string
  visibility :: "string option"
  source :: "string option"

text \<open>
  \<^verbatim>\<open>compute_cid\<close> of \<^verbatim>\<open>core.py\<close>; \<open>blake3_hex\<close> is
  \<^verbatim>\<open>blake3.blake3(_.encode()).hexdigest()\<close>, \<open>dumps\<close> is \<^verbatim>\<open>canonicalize\<close>.
\<close>

definition core_compute_cid :: "(json \<Rightarrow> string) \<Rightarrow> (string \<Rightarrow> string) \<Rightarrow> json \<Rightarrow> string" where
  "core_compute_cid dumps blake3_hex obj = ''cid:blake3:'' @ blake3_hex (dumps obj)"

text \<open>
  \<^verbatim>\<open>sign_content\<close>. \<open>nacl_sign_hex k m\<close> is
  \<^verbatim>\<open>SigningKey(k, encoder=HexEncoder).sign(m.encode()).signature.hex()\<close>, which raises on a
  malformed key.
\<close>

definition sign_content ::
  "(string \<Rightarrow> string \<Rightarrow> py_error + string) \<Rightarrow> string \<Rightarrow> Identity \<Rightarrow> py_error + string" where
  "sign_content nacl_sign_hex c identity =
     (case privkey identity of
        None \<Rightarrow> Inl ValueError
      | Some k \<Rightarrow> if k = [] then Inl ValueError else nacl_sign_hex k c)"

definition signable ::
  "string \<Rightarrow> json \<Rightarrow> string \<Rightarrow> int \<Rightarrow> string list \<Rightarrow> string option \<Rightarrow> string option
     \<Rightarrow> (string \<times> json) list" where
  "signable ty co cb ca be vis src =
     (let d0 = [(''type'', JStr ty), (''content'', co), (''created_by'', JStr cb),
                (''created_at'', JInt ca), (''because'', JArr (map JStr be))];
          d1 = (case vis of None \<Rightarrow> d0
                | Some v \<Rightarrow> if v \<noteq> [] then dict_set d0 ''visibility'' (JStr v) else d0)
      in case src of None \<Rightarrow> d1
         | Some s \<Rightarrow> if s \<noteq> [] then dict_set d1 ''source'' (JStr s) else d1)"

text \<open>
  \<^verbatim>\<open>create_thought\<close>; \<open>now_ms\<close> is \<^verbatim>\<open>int(time.time() * 1000)\<close>. The CID is computed from
  the signable fields, then the CID string is signed.
\<close>

definition create_thought ::
  "(json \<Rightarrow> string) \<Rightarrow> (string \<Rightarrow> string) \<Rightarrow> (string \<Rightarrow> string \<Rightarrow> py_error + string) \<Rightarrow> int
     \<Rightarrow> json \<Rightarrow> string \<Rightarrow> Identity \<Rightarrow> string list option \<Rightarrow> string option \<Rightarrow> string option
     \<Rightarrow> py_error + Thought" where
  "create_thought dumps blake3_hex nacl_sign_hex now_ms co thought_type identity because_opt vis src =
     (let be = (case because_opt of None \<Rightarrow> [] | Some b \<Rightarrow> b);
          created = now_ms;
          sg = signable thought_type co (Identity.cid identity) created be vis src;
          c = core_compute_cid dumps blake3_hex (JObj sg)
      in ebind (sign_content nacl_sign_hex c identity) (\<lambda>sig.
           Inr \<lparr>cid = c, type = thought_type, content = co,
                created_by = Identity.cid identity, created_at = created, because = be,
                signature = sig, visibility = vis, source = src\<rparr>))"

text \<open>\<^verbatim>\<open>str.replace(old, new)\<close>: every non-overlapping occurrence, left to right.\<close>

fun str_replace :: "string \<Rightarrow> string \<Rightarrow> string \<Rightarrow> string" where
  "str_replace old new [] = (if old = [] then new else [])"
| "str_replace old new (c # cs) =
     (if old = [] then new @ c # str_replace old new cs
      else if prefix old (c # cs) then new @ str_replace old new (drop (length old) (c # cs))
      else c # str_replace old new cs)"

text \<open>
  \<^verbatim>\<open>verify_signature\<close>. \<open>nacl_verify_hex k m s\<close> holds iff
  \<^verbatim>\<open>VerifyKey(k, encoder=HexEncoder).verify(m.encode(), bytes.fromhex(s))\<close> returns without
  raising; every exception of the \<^verbatim>\<open>try\<close> block yields \<^verbatim>\<open>False\<close>.
\<close>

definition verify_signature ::
  "(string \<Rightarrow> string \<Rightarrow> string \<Rightarrow> bool) \<Rightarrow> Thought \<Rightarrow> string \<Rightarrow> bool" where
  "verify_signature nacl_verify_hex thought pk =
     (let key_hex = str_replace ''ed25519:'' [] pk
      in nacl_verify_hex key_hex (Thought.cid thought) (Thought.signature thought))"






section \<open>Trust-weighted retrieval (\<^verbatim>\<open>thread-2/wellspring_embeddings.py\<close>)\<close>

text \<open>
  One row of the join of \<^verbatim>\<open>thought_embeddings\<close> and \<^verbatim>\<open>embedding_metadata\<close>; a nullable
  column is an option (\<open>row_pool_cid\<close> is the column \<^verbatim>\<open>pool_cid\<close>). \<open>'v\<close> is the type of
  embedding vectors.
\<close>

record 'v emb_row =
  cid :: string
  embedding :: 'v
  row_pool_cid :: "string option"
  text_content :: "string option"
  appetite_status :: "string option"
  trust_weight :: "real option"
  chain_depth :: "int option"
  created_at :: "int option"

text \<open>
  The body of the scoring loop of \<^verbatim>\<open>query\<close> for one row, given its similarity.
  \<^verbatim>\<open>trust_weight if trust_weight else 1.0\<close> takes the stored weight only when it is truthy;
  \<^verbatim>\<open>(chain_depth or 0)\<close> and \<^verbatim>\<open>recency_decay > 0 and created_at\<close> test truthiness likewise.
\<close>

definition relevance_score :: "bool \<Rightarrow> real \<Rightarrow> int \<Rightarrow> real \<Rightarrow> 'v emb_row \<Rightarrow> py_error + real" where
  "relevance_score apply_trust_weighting recency_decay now_ms similarity row =
     (if apply_trust_weighting then
        let trust = (case trust_weight row of None \<Rightarrow> 1 | Some w \<Rightarrow> if w = 0 then 1 else w);
            depth = (case chain_depth row of None \<Rightarrow> 0 | Some d \<Rightarrow> d);
            denom = 1 + real_of_int depth * 0.1
        in if denom = 0 then Inl ZeroDivisionError
           else
             let chain_boost = 1 / denom;
                 recency =
                   (case created_at row of
                      None \<Rightarrow> 1
                    | Some created \<Rightarrow>
                        if recency_decay > 0 \<and> created \<noteq> 0
                        then (let hours_old = real_of_int (now_ms - created) / (1000 * 60 * 60)
                              in max 0.5 (1 - recency_decay * hours_old))
                        else 1)
             in Inr (similarity * trust * chain_boost * recency)
      else Inr similarity)"

text \<open>\<^verbatim>\<open>results[:top_k]\<close>: a negative bound counts from the end.\<close>

definition py_take :: "int \<Rightarrow> 'a list \<Rightarrow> 'a list" where
  "py_take k xs = (if k \<ge> 0 then take (nat k) xs else take (length xs - nat (- k)) xs)"

text \<open>
  \<^verbatim>\<open>EmbeddingPipeline.query\<close> after the query text is embedded: \<open>cosine_distance\<close> is the
  module's function of that name, \<open>rows\<close> the table in the order SQLite returns it. The result
  triples are \<^verbatim>\<open>(cid, relevance, text)\<close>; the fourth component of the source's tuples, a
  dict that repeats the row's columns, is left out. The sort is stable and descending.
\<close>

definition query ::
  "('v \<Rightarrow> 'v \<Rightarrow> real) \<Rightarrow> int \<Rightarrow> 'v emb_row list \<Rightarrow> 'v \<Rightarrow> int \<Rightarrow> string option \<Rightarrow> bool \<Rightarrow> bool
     \<Rightarrow> real \<Rightarrow> py_error + (string \<times> real \<times> string option) list" where
  "query cosine_distance now_ms rows query_embedding top_k pool apply_trust_weighting
     exclude_pending recency_decay =
     (let scoped = (case pool of
                      None \<Rightarrow> rows
                    | Some p \<Rightarrow> if p = [] then rows else filter (\<lambda>r. row_pool_cid r = Some p) rows);
          kept = filter (\<lambda>r. \<not> (exclude_pending \<and> appetite_status r = Some ''pending_attestation''))
                   scoped
      in ebind (map_err (\<lambda>r.
                  let dist = cosine_distance query_embedding (embedding r);
                      similarity = 1 - dist
                  in ebind (relevance_score apply_trust_weighting recency_decay now_ms similarity r)
                       (\<lambda>relevance. Inr (emb_row.cid r, relevance, text_content r))) kept)
           (\<lambda>results. Inr (py_take top_k (sort_key (\<lambda>x. - fst (snd x)) results))))"

section \<open>Trust graph (\<^verbatim>\<open>wellspring_trust_network.py\<close>)\<close>

text \<open>
  \<^verbatim>\<open>direct_trust[from_id][to_id] = weight\<close>: a \<^verbatim>\<open>defaultdict(dict)\<close>, iterated in insertion
  order by the search.
\<close>

type_synonym trust_edges = "(string \<times> (string \<times> real) list) list"


text \<open>\<^verbatim>\<open>self.direct_trust.get(a, {})\<close>.\<close>

definition edges_of :: "trust_edges \<Rightarrow> string \<Rightarrow> (string \<times> real) list" where
  "edges_of dt a = (case map_of dt a of None \<Rightarrow> [] | Some d \<Rightarrow> d)"







section \<open>Trust graph with repeaters (\<^verbatim>\<open>wellspring_repeaters.py\<close>)\<close>

type_synonym trust_cache = "string \<times> string \<times> bool \<rightharpoonup> real"

type_synonym repeater_table = "(string \<times> (string \<times> string list) list) list"

record TrustGraphWithRepeaters =
  edges :: trust_edges
  repeaters :: repeater_table
  cache :: trust_cache

definition TrustGraphWithRepeaters_init :: TrustGraphWithRepeaters where
  "TrustGraphWithRepeaters_init = \<lparr>edges = [], repeaters = [], cache = Map.empty\<rparr>"

text \<open>\<^verbatim>\<open>add_edge\<close> clears the cache; \<^verbatim>\<open>designate_repeater\<close> does not.\<close>

definition add_edge :: "string \<Rightarrow> string \<Rightarrow> real \<Rightarrow> TrustGraphWithRepeaters \<Rightarrow> TrustGraphWithRepeaters" where
  "add_edge from_cid to_cid weight self =
     self\<lparr>edges := dict_set (edges self) from_cid
                      (dict_set (edges_of (edges self) from_cid) to_cid weight),
          cache := Map.empty\<rparr>"

definition designate_repeater ::
  "string \<Rightarrow> string \<Rightarrow> string list \<Rightarrow> TrustGraphWithRepeaters \<Rightarrow> TrustGraphWithRepeaters" where
  "designate_repeater designator_cid repeater_cid domains self =
     self\<lparr>repeaters := dict_set (repeaters self) designator_cid
                          (dict_set (case map_of (repeaters self) designator_cid of
                                       None \<Rightarrow> [] | Some r \<Rightarrow> r)
                             repeater_cid domains)\<rparr>"

text \<open>\<^verbatim>\<open>domain is None or domain in domains or "*" in domains\<close>.\<close>

definition domain_matches :: "string option \<Rightarrow> string list \<Rightarrow> bool" where
  "domain_matches domain domains =
     (case domain of None \<Rightarrow> True | Some d \<Rightarrow> d \<in> set domains \<or> ''*'' \<in> set domains)"

text \<open>
  \<^verbatim>\<open>TrustGraphWithRepeaters.compute_trust\<close>, returning the score and the cache it leaves
  (the second component of the source's result, a list of strings describing the path, is
  left out). \<open>repeater_loop\<close> is the loop over the designated repeaters, which returns from
  the function at the first repeater with positive trust on both legs; \<open>transitive_loop\<close> is
  the loop over the outgoing edges.
\<close>

function
  compute_trust_c ::
    "trust_edges \<Rightarrow> repeater_table \<Rightarrow> trust_cache \<Rightarrow> string \<Rightarrow> string
       \<Rightarrow> bool \<Rightarrow> string option \<Rightarrow> string set \<Rightarrow> nat \<Rightarrow> real \<Rightarrow> real \<times> trust_cache"
and repeater_loop ::
    "trust_edges \<Rightarrow> repeater_table \<Rightarrow> trust_cache \<Rightarrow> string \<Rightarrow> string
       \<Rightarrow> string option \<Rightarrow> real \<Rightarrow> (string \<times> string list) list \<Rightarrow> real option \<times> trust_cache"
and transitive_loop ::
    "trust_edges \<Rightarrow> repeater_table \<Rightarrow> trust_cache \<Rightarrow> string
       \<Rightarrow> bool \<Rightarrow> string option \<Rightarrow> string set \<Rightarrow> nat \<Rightarrow> real \<Rightarrow> (string \<times> real) list \<Rightarrow> real
       \<Rightarrow> real \<times> trust_cache"
where
  "compute_trust_c es reps c from_cid to_cid use_repeaters domain visited depth dec =
     (if from_cid = to_cid then (1, c)
      else case c (from_cid, to_cid, use_repeaters) of
        Some t \<Rightarrow> (t, c)
      | None \<Rightarrow>
          if from_cid \<in> visited \<or> depth > 10 then (0, c)
          else
            let visited' = insert from_cid visited;
                shortcut =
                  (if use_repeaters
                   then (case map_of reps from_cid of
                           Some designated \<Rightarrow>
                             repeater_loop es reps c from_cid to_cid domain dec designated
                         | None \<Rightarrow> (None, c))
                   else (None, c))
            in case shortcut of
                 (Some final, c1) \<Rightarrow> (final, c1((from_cid, to_cid, use_repeaters) \<mapsto> final))
               | (None, c1) \<Rightarrow>
                   (case map_of es from_cid of
                      None \<Rightarrow> (0, c1)
                    | Some out \<Rightarrow>
                        (case map_of out to_cid of
                           Some trust \<Rightarrow> (trust, c1((from_cid, to_cid, use_repeaters) \<mapsto> trust))
                         | None \<Rightarrow>
                             (case transitive_loop es reps c1 to_cid use_repeaters domain visited'
                                     depth dec out 0 of
                                (best_trust, c2) \<Rightarrow>
                                  (best_trust, c2((from_cid, to_cid, use_repeaters) \<mapsto> best_trust))))))"
| "repeater_loop es reps c from_cid to_cid domain dec [] = (None, c)"
| "repeater_loop es reps c from_cid to_cid domain dec ((repeater_cid, domains) # rest) =
     (if domain_matches domain domains
      then (case compute_trust_c es reps c from_cid repeater_cid False None {} 0 dec of
              (my_trust_in_repeater, c1) \<Rightarrow>
                if my_trust_in_repeater > 0
                then (case compute_trust_c es reps c1 repeater_cid to_cid False None {} 0 dec of
                        (repeater_trust, c2) \<Rightarrow>
                          if repeater_trust > 0
                          then (Some (my_trust_in_repeater * repeater_trust), c2)
                          else repeater_loop es reps c2 from_cid to_cid domain dec rest)
                else repeater_loop es reps c1 from_cid to_cid domain dec rest)
      else repeater_loop es reps c from_cid to_cid domain dec rest)"
| "transitive_loop es reps c to_cid use_repeaters domain visited depth dec [] best_trust = (best_trust, c)"
| "transitive_loop es reps c to_cid use_repeaters domain visited depth dec ((intermediate, weight) # rest) best_trust =
     (if weight > 0 \<and> intermediate \<notin> visited
      then (case compute_trust_c es reps c intermediate to_cid use_repeaters domain visited (depth + 1) dec of
              (transitive, c1) \<Rightarrow>
                let path_trust = weight * transitive * dec
                in transitive_loop es reps c1 to_cid use_repeaters domain visited depth dec rest
                     (if path_trust > best_trust then path_trust else best_trust))
      else transitive_loop es reps c to_cid use_repeaters domain visited depth dec rest best_trust)"
  by pat_completeness auto
termination
  apply (relation "inv_image (less_than <*lex*> less_than <*lex*> less_than <*lex*> less_than)
     (\<lambda>x. case x of
        Inl (es, reps, c, from_cid, to_cid, use_repeaters, domain, visited, depth, dec) \<Rightarrow>
          (if use_repeaters then 1 else 0, 11 - depth, 0, 0)
      | Inr (Inl (es, reps, c, from_cid, to_cid, domain, dec, items)) \<Rightarrow>
          (1::nat, 0::nat, 0::nat, length items)
      | Inr (Inr (es, reps, c, to_cid, use_repeaters, domain, visited, depth, dec, items, best)) \<Rightarrow>
          (if use_repeaters then 1 else 0, 10 - depth, 1, length items))")
  apply auto
  done

text \<open>A call on the graph object: \<^verbatim>\<open>visited=None\<close>, \<^verbatim>\<open>depth=0\<close>, \<^verbatim>\<open>decay=0.8\<close>.\<close>

definition compute_trust_r ::
  "TrustGraphWithRepeaters \<Rightarrow> string \<Rightarrow> string \<Rightarrow> bool \<Rightarrow> string option
     \<Rightarrow> real \<times> TrustGraphWithRepeaters" where
  "compute_trust_r self from_cid to_cid use_repeaters domain =
     (case compute_trust_c (edges self) (repeaters self) (cache self) from_cid to_cid
             use_repeaters domain {} 0 0.8 of
        (t, c) \<Rightarrow> (t, self\<lparr>cache := c\<rparr>))"

section \<open>The sync node (\<^verbatim>\<open>wellspring_node.py\<close>)\<close>

text \<open>
  A stored thought is the dict that \<^verbatim>\<open>to_dict\<close> produces or that a peer sent:
  \<^verbatim>\<open>thought.get("visibility")\<close> is \<open>None\<close> when the key is absent.
\<close>

record thought_dict =
  cid :: string
  type :: string
  content :: "(string \<times> json) list"
  created_by :: string
  because :: "string list"
  created_at :: string
  signature :: string
  visibility :: "string option"

record WellspringNode =
  thoughts :: "(string \<times> thought_dict) list"
  pubkeys :: "(string \<times> json) list"
  bloom :: BloomFilter
  received_count :: nat
  sent_count :: nat
  verified_count :: nat
  rejected_count :: nat

text \<open>
  \<^verbatim>\<open>_verify_signature\<close>. \<open>ed25519_verify_b64 k s m\<close> holds iff the body of the \<^verbatim>\<open>try\<close>
  block (\<^verbatim>\<open>hex_to_pubkey(k)\<close>, \<^verbatim>\<open>base64.b64decode(s)\<close>, \<^verbatim>\<open>pubkey.verify(sig_bytes, m)\<close>) runs
  without raising; a public key that is not a string makes \<^verbatim>\<open>bytes.fromhex\<close> raise inside
  the block. The lookup \<^verbatim>\<open>thought["content"]["pubkey"]\<close> happens before the block.
\<close>

definition node_verify_signature ::
  "(json \<Rightarrow> string) \<Rightarrow> (string \<Rightarrow> string \<Rightarrow> string \<Rightarrow> bool) \<Rightarrow> (string \<times> json) list \<Rightarrow> thought_dict
     \<Rightarrow> py_error + bool" where
  "node_verify_signature dumps ed25519_verify_b64 pks thought =
     (let check = (\<lambda>pubkey_hex.
            let sd = sign_data (type thought) (content thought) (created_by thought)
                       (because thought) (created_at thought) (visibility thought);
                message = dumps (JObj sd)
            in case pubkey_hex of
                 JStr k \<Rightarrow> ed25519_verify_b64 k (signature thought) message
               | _ \<Rightarrow> False)
      in if type thought = ''identity'' \<and> created_by thought = ''GENESIS''
         then ebind (dict_get (content thought) ''pubkey'') (\<lambda>pubkey_hex. Inr (check pubkey_hex))
         else case map_of pks (created_by thought) of
                Some pubkey_hex \<Rightarrow> Inr (check pubkey_hex)
              | None \<Rightarrow> Inr False)"


text \<open>
  The second pass of \<^verbatim>\<open>get_missing_for_peer\<close>: the creators of the missing thoughts that
  are stored here and that the peer's filter does not report.
\<close>

fun needed_loop ::
  "(string \<Rightarrow> nat \<Rightarrow> int) \<Rightarrow> (string \<times> thought_dict) list \<Rightarrow> BloomFilter \<Rightarrow> string list
     \<Rightarrow> string list \<Rightarrow> py_error + string list" where
  "needed_loop mmh3_hash ths peer_bloom [] needed_identities = Inr needed_identities"
| "needed_loop mmh3_hash ths peer_bloom (c # rest) needed_identities =
     ebind (dict_get ths c) (\<lambda>thought.
       let cb = created_by thought in
       if cb \<noteq> ''GENESIS'' \<and> cb \<in> fst ` set ths
       then ebind (maybe_contains mmh3_hash cb peer_bloom) (\<lambda>present.
              needed_loop mmh3_hash ths peer_bloom rest
                (if \<not> present then set_add needed_identities cb else needed_identities))
       else needed_loop mmh3_hash ths peer_bloom rest needed_identities)"

text \<open>
  \<^verbatim>\<open>WellspringNode.get_missing_for_peer\<close>. The result is given as the list of store keys
  whose thoughts are sent, in sending order; \<open>get_missing_for_peer\<close> maps them to the
  thoughts. \<^verbatim>\<open>from_hex\<close> is called with its default parameters.
\<close>

definition missing_cids_for_peer ::
  "(string \<Rightarrow> nat \<Rightarrow> int) \<Rightarrow> (string \<times> thought_dict) list \<Rightarrow> BloomFilter \<Rightarrow> py_error + string list" where
  "missing_cids_for_peer mmh3_hash ths peer_bloom =
     filter_err (\<lambda>c. ebind (maybe_contains mmh3_hash c peer_bloom) (\<lambda>present. Inr (\<not> present)))
       (map fst ths)"

definition get_missing_cids_for_peer ::
  "(string \<Rightarrow> nat \<Rightarrow> int) \<Rightarrow> (string list \<Rightarrow> string list) \<Rightarrow> WellspringNode \<Rightarrow> string
     \<Rightarrow> py_error + string list" where
  "get_missing_cids_for_peer mmh3_hash set_iter self peer_bloom_hex =
     ebind (from_hex peer_bloom_hex 1024 3) (\<lambda>peer_bloom.
     ebind (missing_cids_for_peer mmh3_hash (thoughts self) peer_bloom) (\<lambda>missing_cids.
     ebind (needed_loop mmh3_hash (thoughts self) peer_bloom (set_iter missing_cids) [])
       (\<lambda>needed_identities.
         Inr (filter (\<lambda>c. c \<notin> set missing_cids) (set_iter needed_identities)
              @ set_iter missing_cids))))"

definition get_missing_for_peer ::
  "(string \<Rightarrow> nat \<Rightarrow> int) \<Rightarrow> (string list \<Rightarrow> string list) \<Rightarrow> WellspringNode \<Rightarrow> string
     \<Rightarrow> py_error + thought_dict list" where
  "get_missing_for_peer mmh3_hash set_iter self peer_bloom_hex =
     ebind (get_missing_cids_for_peer mmh3_hash set_iter self peer_bloom_hex)
       (map_err (dict_get (thoughts self)))"

text \<open>
  \<^verbatim>\<open>SignedThought.to_dict\<close> on a signed thought. (On an unsigned one the dict would hold
  \<^verbatim>\<open>None\<close> under \<^verbatim>\<open>cid\<close> and \<^verbatim>\<open>signature\<close>, which \<open>thought_dict\<close> does not represent; every
  call in the source follows \<^verbatim>\<open>sign\<close>.)
\<close>

definition to_dict :: "SignedThought \<Rightarrow> thought_dict option" where
  "to_dict self =
     (case (SignedThought.cid self, SignedThought.signature self) of
        (Some c, Some s) \<Rightarrow>
          Some \<lparr>cid = c, type = SignedThought.type self, content = SignedThought.content self,
                created_by = SignedThought.created_by self, because = SignedThought.because self,
                created_at = SignedThought.created_at self, signature = s,
                visibility = (case SignedThought.visibility self of
                                None \<Rightarrow> None | Some v \<Rightarrow> if v \<noteq> [] then Some v else None)\<rparr>
      | _ \<Rightarrow> None)"

section \<open>Visibility-aware sync (\<^verbatim>\<open>wellspring_node_v2.py\<close>)\<close>

record WellspringNodeV2 = WellspringNode +
  pool_memberships :: "string \<rightharpoonup> string set"
  peer_shared_pools :: "string \<rightharpoonup> string set"
  known_peers :: "string \<rightharpoonup> thought_dict"
  filtered_count :: nat

definition is_pool_member :: "'a WellspringNodeV2_scheme \<Rightarrow> string \<Rightarrow> string \<Rightarrow> bool" where
  "is_pool_member self pool_cid identity_cid =
     (identity_cid \<in> (case pool_memberships self pool_cid of None \<Rightarrow> {} | Some m \<Rightarrow> m))"

definition get_shared_pools :: "'a WellspringNodeV2_scheme \<Rightarrow> string \<Rightarrow> string set" where
  "get_shared_pools self peer_cid =
     (case peer_shared_pools self peer_cid of None \<Rightarrow> {} | Some p \<Rightarrow> p)"

text \<open>Python's \<^verbatim>\<open>==\<close> on JSON values: \<^verbatim>\<open>True == 1\<close>, dicts compare without order.\<close>

fun py_eq :: "json \<Rightarrow> json \<Rightarrow> bool" where
  "py_eq JNull b = (b = JNull)"
| "py_eq (JBool x) b =
     (case b of JBool y \<Rightarrow> x = y | JInt n \<Rightarrow> n = (if x then 1 else 0) | _ \<Rightarrow> False)"
| "py_eq (JInt m) b =
     (case b of JInt n \<Rightarrow> m = n | JBool y \<Rightarrow> m = (if y then 1 else 0) | _ \<Rightarrow> False)"
| "py_eq (JStr s) b = (b = JStr s)"
| "py_eq (JArr xs) b = (case b of JArr ys \<Rightarrow> list_all2 py_eq xs ys | _ \<Rightarrow> False)"
| "py_eq (JObj kvs) b =
     (case b of
        JObj kvs' \<Rightarrow>
          fst ` set kvs = fst ` set kvs' \<and>
          (\<forall>(k, v) \<in> set kvs. case map_of kvs' k of Some v' \<Rightarrow> py_eq v v' | None \<Rightarrow> False)
      | _ \<Rightarrow> False)"

text \<open>
  \<^verbatim>\<open>x in c\<close> for JSON values: element equality in a list, substring in a string (the left
  operand must be a string), key membership in a dict (the left operand must be hashable),
  \<^verbatim>\<open>TypeError\<close> on a container that is not iterable.
\<close>

definition py_in :: "json \<Rightarrow> json \<Rightarrow> py_error + bool" where
  "py_in x c =
     (case c of
        JArr es \<Rightarrow> Inr (\<exists>e \<in> set es. py_eq e x)
      | JStr t \<Rightarrow> (case x of JStr s \<Rightarrow> Inr (sublist s t) | _ \<Rightarrow> Inl TypeError)
      | JObj kvs \<Rightarrow>
          (case x of
             JStr s \<Rightarrow> Inr (s \<in> fst ` set kvs)
           | JArr _ \<Rightarrow> Inl TypeError
           | JObj _ \<Rightarrow> Inl TypeError
           | _ \<Rightarrow> Inr False)
      | _ \<Rightarrow> Inl TypeError)"

text \<open>
  \<^verbatim>\<open>_can_share_with_peer\<close>, returning \<^verbatim>\<open>(can_share, reason)\<close>. \<open>peer_name\<close> is
  \<^verbatim>\<open>self.known_peers.get(peer_cid, {}).get("content", {}).get("name")\<close>, which is
  \<^verbatim>\<open>None\<close> for an unregistered peer.
\<close>

definition can_share_with_peer ::
  "'a WellspringNodeV2_scheme \<Rightarrow> thought_dict \<Rightarrow> string \<Rightarrow> py_error + (bool \<times> string)" where
  "can_share_with_peer self thought peer_cid =
     (case visibility thought of
        None \<Rightarrow> Inr (True, ''public'')
      | Some vis \<Rightarrow>
          if vis = ''public'' then Inr (True, ''public'')
          else if vis = ''local_forever'' then Inr (False, ''local_forever'')
          else if prefix ''pool:'' vis then
            (let pool_cid = drop 5 vis in
             if is_pool_member self pool_cid peer_cid then Inr (True, ''peer_is_member:'' @ pool_cid)
             else if pool_cid \<in> get_shared_pools self peer_cid
               then Inr (True, ''shared_pool:'' @ pool_cid)
             else Inr (False, ''no_pool_access:'' @ pool_cid))
          else if vis = ''participants_only'' then
            (let participants =
                   (case map_of (content thought) ''participants'' of None \<Rightarrow> JArr [] | Some p \<Rightarrow> p);
                 peer_name =
                   (case known_peers self peer_cid of
                      None \<Rightarrow> JNull
                    | Some p \<Rightarrow> (case map_of (content p) ''name'' of None \<Rightarrow> JNull | Some n \<Rightarrow> n))
             in ebind (py_in (JStr peer_cid) participants) (\<lambda>by_cid.
                  if by_cid then Inr (True, ''is_participant'')
                  else ebind (py_in peer_name participants) (\<lambda>by_name.
                         if by_name then Inr (True, ''is_participant'')
                         else Inr (False, ''not_participant''))))
          else Inr (False, ''unknown_visibility:'' @ vis))"

record sync_stats =
  total_checked :: nat
  missing :: nat
  filtered_local_forever :: nat
  filtered_pool_access :: nat
  filtered_participants :: nat
  shared :: nat

text \<open>The counter that a withheld thought increments, chosen by substring tests on the reason.\<close>

definition count_filtered :: "string \<Rightarrow> sync_stats \<Rightarrow> sync_stats" where
  "count_filtered reason stats =
     (if sublist ''local_forever'' reason
        then stats\<lparr>filtered_local_forever := filtered_local_forever stats + 1\<rparr>
      else if sublist ''pool_access'' reason
        then stats\<lparr>filtered_pool_access := filtered_pool_access stats + 1\<rparr>
      else if sublist ''participant'' reason
        then stats\<lparr>filtered_participants := filtered_participants stats + 1\<rparr>
      else stats)"

text \<open>Second pass: the visibility filter; the state is (shareable, filtered count, stats).\<close>

fun share_loop ::
  "'a WellspringNodeV2_scheme \<Rightarrow> string \<Rightarrow> string list \<Rightarrow> string list \<times> nat \<times> sync_stats
     \<Rightarrow> py_error + (string list \<times> nat \<times> sync_stats)" where
  "share_loop self peer_cid [] acc = Inr acc"
| "share_loop self peer_cid (c # rest) (shareable_cids, filtered, stats) =
     ebind (dict_get (thoughts self) c) (\<lambda>thought.
     ebind (can_share_with_peer self thought peer_cid) (\<lambda>(can_share, reason).
       if can_share then share_loop self peer_cid rest (set_add shareable_cids c, filtered, stats)
       else share_loop self peer_cid rest
              (shareable_cids, filtered + 1, count_filtered reason stats)))"

text \<open>Third pass: creator identities of the shareable thoughts, themselves visibility-checked.\<close>

fun needed_loop_v2 ::
  "(string \<Rightarrow> nat \<Rightarrow> int) \<Rightarrow> 'a WellspringNodeV2_scheme \<Rightarrow> string \<Rightarrow> BloomFilter \<Rightarrow> string list
     \<Rightarrow> string list \<Rightarrow> py_error + string list" where
  "needed_loop_v2 mmh3_hash self peer_cid peer_bloom [] needed_identities = Inr needed_identities"
| "needed_loop_v2 mmh3_hash self peer_cid peer_bloom (c # rest) needed_identities =
     ebind (dict_get (thoughts self) c) (\<lambda>thought.
       let cb = created_by thought in
       if cb \<noteq> ''GENESIS'' \<and> cb \<in> fst ` set (thoughts self)
       then ebind (maybe_contains mmh3_hash cb peer_bloom) (\<lambda>present.
              if \<not> present
              then ebind (dict_get (thoughts self) cb) (\<lambda>identity_thought.
                   ebind (can_share_with_peer self identity_thought peer_cid) (\<lambda>(can_share_id, _).
                     needed_loop_v2 mmh3_hash self peer_cid peer_bloom rest
                       (if can_share_id then set_add needed_identities cb else needed_identities)))
              else needed_loop_v2 mmh3_hash self peer_cid peer_bloom rest needed_identities)
       else needed_loop_v2 mmh3_hash self peer_cid peer_bloom rest needed_identities)"

text \<open>
  \<^verbatim>\<open>WellspringNodeV2.get_missing_for_peer\<close>: the keys sent in sending order, the statistics,
  and the node with its \<^verbatim>\<open>filtered_count\<close> updated.
\<close>

definition get_missing_cids_for_peer_v2 ::
  "(string \<Rightarrow> nat \<Rightarrow> int) \<Rightarrow> (string list \<Rightarrow> string list) \<Rightarrow> 'a WellspringNodeV2_scheme \<Rightarrow> string
     \<Rightarrow> string \<Rightarrow> py_error + (string list \<times> sync_stats \<times> 'a WellspringNodeV2_scheme)" where
  "get_missing_cids_for_peer_v2 mmh3_hash set_iter self peer_bloom_hex peer_cid =
     ebind (from_hex peer_bloom_hex 1024 3) (\<lambda>peer_bloom.
     ebind (missing_cids_for_peer mmh3_hash (thoughts self) peer_bloom) (\<lambda>missing_cids.
     let stats0 = \<lparr>total_checked = length (thoughts self), missing = length missing_cids,
                   filtered_local_forever = 0, filtered_pool_access = 0,
                   filtered_participants = 0, shared = 0\<rparr>
     in
     ebind (share_loop self peer_cid (set_iter missing_cids) ([], filtered_count self, stats0))
       (\<lambda>(shareable_cids, filtered, stats1).
     ebind (needed_loop_v2 mmh3_hash self peer_cid peer_bloom (set_iter shareable_cids) [])
       (\<lambda>needed_identities.
         let result = filter (\<lambda>c. c \<notin> set shareable_cids) (set_iter needed_identities)
                      @ set_iter shareable_cids
         in Inr (result, stats1\<lparr>shared := length result\<rparr>,
                 self\<lparr>filtered_count := filtered\<rparr>)))))"

definition get_missing_for_peer_v2 ::
  "(string \<Rightarrow> nat \<Rightarrow> int) \<Rightarrow> (string list \<Rightarrow> string list) \<Rightarrow> 'a WellspringNodeV2_scheme \<Rightarrow> string
     \<Rightarrow> string \<Rightarrow> py_error + (thought_dict list \<times> sync_stats \<times> 'a WellspringNodeV2_scheme)" where
  "get_missing_for_peer_v2 mmh3_hash set_iter self peer_bloom_hex peer_cid =
     ebind (get_missing_cids_for_peer_v2 mmh3_hash set_iter self peer_bloom_hex peer_cid)
       (\<lambda>(cids, stats, self').
          ebind (map_err (dict_get (thoughts self)) cids) (\<lambda>result. Inr (result, stats, self')))"

section \<open>Vouch chains with penalties (\<^verbatim>\<open>wellspring_vouch_sybil.py\<close>)\<close>










section \<open>Auxiliary notions of the proofs\<close>

text \<open>
  Trust without repeater recursion, with a fresh visited set, depth 0 and an empty cache.
\<close>

definition trust_without_repeaters :: "trust_edges \<Rightarrow> repeater_table \<Rightarrow> string \<Rightarrow> string \<Rightarrow> real \<Rightarrow> real" where
  "trust_without_repeaters es reps a b dec =
     fst (compute_trust_c es reps Map.empty a b False None {} 0 dec)"

text \<open>
  For the proof that the two legs of a repeater shortcut do not interfere through the cache:
  two caches that agree on the keys of one target, a cache that changed on those keys only,
  and two runs with the same score that leave such caches.
\<close>

definition cache_agree :: "string \<Rightarrow> trust_cache \<Rightarrow> trust_cache \<Rightarrow> bool" where
  "cache_agree to_cid c c' = (\<forall>x. c (x, to_cid, False) = c' (x, to_cid, False))"

definition cache_frame :: "string \<Rightarrow> trust_cache \<Rightarrow> trust_cache \<Rightarrow> bool" where
  "cache_frame to_cid c c1 = (\<forall>k. (\<forall>x. k \<noteq> (x, to_cid, False)) \<longrightarrow> c1 k = c k)"

definition same_run :: "string \<Rightarrow> real \<times> trust_cache \<Rightarrow> real \<times> trust_cache \<Rightarrow> bool" where
  "same_run to_cid r r' = (fst r = fst r' \<and> cache_agree to_cid (snd r) (snd r'))"












definition shortcut ::
  "trust_edges \<Rightarrow> repeater_table \<Rightarrow> trust_cache \<Rightarrow> string \<Rightarrow> string \<Rightarrow> bool \<Rightarrow> string option
     \<Rightarrow> real \<Rightarrow> real option \<times> trust_cache" where
  "shortcut es reps c from_cid to_cid use_repeaters domain dec =
     (if use_repeaters
      then (case map_of reps from_cid of
              Some designated \<Rightarrow> repeater_loop es reps c from_cid to_cid domain dec designated
            | None \<Rightarrow> (None, c))
      else (None, c))"





section \<open>Concrete inputs for the witnesses and counterexamples\<close>

text \<open>A stand-in for \<^verbatim>\<open>mmh3.hash\<close> with values of both signs.\<close>

definition demo_hash :: "string \<Rightarrow> nat \<Rightarrow> int" where
  "demo_hash item i = int (length item) * 7 + int i * 13 - 5"


definition demo_row :: "unit emb_row" where
  "demo_row = \<lparr>emb_row.cid = ''cid:blake3:00'', embedding = (), row_pool_cid = None,
               text_content = Some ''in-window thought'', appetite_status = Some ''flagged'',
               trust_weight = Some 0, chain_depth = Some 0, emb_row.created_at = None\<rparr>"

text \<open>
  The relevance that the specification's formula assigns to a row of similarity \<open>s\<close>, weight
  \<open>w\<close>, chain depth \<open>c\<close>, decay \<open>d\<close> and age \<open>h\<close> hours (written from the specification,
  for comparison with \<open>relevance_score\<close>).
\<close>

definition spec_relevance :: "real \<Rightarrow> real \<Rightarrow> int \<Rightarrow> real \<Rightarrow> real \<Rightarrow> real" where
  "spec_relevance similarity w c d h =
     similarity * w * (1 / (1 + 0.1 * real_of_int c)) * max 0.5 (1 - d * h)"





text \<open>A stand-in for \<^verbatim>\<open>json.dumps\<close>: structural, without escaping or key sorting.\<close>

fun demo_dumps :: "json \<Rightarrow> string" where
  "demo_dumps JNull = ''null''"
| "demo_dumps (JBool b) = (if b then ''true'' else ''false'')"
| "demo_dumps (JInt n) = (if n < 0 then ''-'' else []) @ replicate (nat \<bar>n\<bar>) CHR ''1''"
| "demo_dumps (JStr s) = ''\"'' @ s @ ''\"''"
| "demo_dumps (JArr xs) = ''['' @ concat (map (\<lambda>x. demo_dumps x @ '','') xs) @ '']''"
| "demo_dumps (JObj kvs) =
     ''{'' @ concat (map (\<lambda>(k, v). ''\"'' @ k @ ''\":'' @ demo_dumps v @ '','') kvs) @ ''}''"


text \<open>A stand-in signature scheme: the signature of \<open>m\<close> under key \<open>k\<close> is \<open>k @ ''|'' @ m\<close>; the public key equals the private key.\<close>

definition demo_sign :: "string \<Rightarrow> string \<Rightarrow> string" where
  "demo_sign k m = k @ ''|'' @ m"

definition demo_verify :: "string \<Rightarrow> string \<Rightarrow> string \<Rightarrow> bool" where
  "demo_verify k s m = (s = demo_sign k m)"



text \<open>
  The hex form of an all-zero filter of 1024 bits, three stored thoughts (a local-forever
  secret, a public note by Alice that was stored before Alice's identity thought, and that
  identity thought), and nodes that hold them.
\<close>

definition zero_bloom_hex :: string where
  "zero_bloom_hex = replicate 256 CHR ''0''"

definition secret_thought :: thought_dict where
  "secret_thought = \<lparr>cid = ''baf_secret'', type = ''secret'', content = [(''key'', JStr ''sk'')],
      created_by = ''baf_alice'', because = [], created_at = ''2025-01-01T00:00:00'',
      signature = ''sig1'', visibility = Some ''local_forever''\<rparr>"

definition alice_identity :: thought_dict where
  "alice_identity = \<lparr>cid = ''baf_alice'', type = ''identity'',
      content = [(''name'', JStr ''Alice''), (''pubkey'', JStr ''k1'')],
      created_by = ''GENESIS'', because = [], created_at = ''2025-01-01T00:00:02'',
      signature = ''sig0'', visibility = None\<rparr>"

definition alice_note :: thought_dict where
  "alice_note = \<lparr>cid = ''baf_note'', type = ''message'', content = [(''text'', JStr ''hi'')],
      created_by = ''baf_alice'', because = [], created_at = ''2025-01-01T00:00:01'',
      signature = ''sig2'', visibility = None\<rparr>"

definition demo_node1 :: WellspringNode where
  "demo_node1 = \<lparr>thoughts = [(''baf_secret'', secret_thought)], pubkeys = [],
     bloom = BloomFilter_init 1024 3,
     received_count = 0, sent_count = 0, verified_count = 0, rejected_count = 0\<rparr>"

definition demo_node2 :: WellspringNodeV2 where
  "demo_node2 = \<lparr>thoughts = [(''baf_secret'', secret_thought), (''baf_note'', alice_note),
                               (''baf_alice'', alice_identity)],
     pubkeys = [(''baf_alice'', JStr ''k1'')],
     bloom = BloomFilter_init 1024 3,
     received_count = 0, sent_count = 0, verified_count = 0, rejected_count = 0,
     pool_memberships = Map.empty, peer_shared_pools = Map.empty, known_peers = Map.empty,
     filtered_count = 0\<rparr>"


text \<open>A first-version node holding a reply, an older note and their creator's identity thought.\<close>

definition alice_reply :: thought_dict where
  "alice_reply = \<lparr>cid = ''baf_reply'', type = ''message'', content = [(''text'', JStr ''again'')],
      created_by = ''baf_alice'', because = [''baf_note''], created_at = ''2025-01-01T00:00:05'',
      signature = ''sig4'', visibility = None\<rparr>"

definition demo_node3 :: WellspringNode where
  "demo_node3 = \<lparr>thoughts = [(''baf_reply'', alice_reply), (''baf_note'', alice_note),
                               (''baf_alice'', alice_identity)],
     pubkeys = [(''baf_alice'', JStr ''k1'')],
     bloom = BloomFilter_init 1024 3,
     received_count = 0, sent_count = 0, verified_count = 0, rejected_count = 0\<rparr>"

text \<open>A participants-only thought whose participants list holds a JSON \<^verbatim>\<open>null\<close>.\<close>

definition null_participants_thought :: thought_dict where
  "null_participants_thought = \<lparr>cid = ''baf_dm'', type = ''message'',
      content = [(''text'', JStr ''for Bob only''), (''participants'', JArr [JStr ''Bob'', JNull])],
      created_by = ''baf_alice'', because = [], created_at = ''2025-01-01T00:00:03'',
      signature = ''sig3'', visibility = Some ''participants_only''\<rparr>"

text \<open>The stand-in signature scheme in the shape of the PyNaCl calls of \<^verbatim>\<open>core.py\<close>.\<close>

definition demo_nacl_sign :: "string \<Rightarrow> string \<Rightarrow> py_error + string" where
  "demo_nacl_sign k m = Inr (demo_sign k m)"

definition demo_nacl_verify :: "string \<Rightarrow> string \<Rightarrow> string \<Rightarrow> bool" where
  "demo_nacl_verify k m s = (s = demo_sign k m)"

definition unsigned_note :: SignedThought where
  "unsigned_note = \<lparr>SignedThought.type = ''message'', SignedThought.content = [(''text'', JStr ''hi'')],
      SignedThought.created_by = ''baf_alice'', SignedThought.because = [],
      SignedThought.visibility = None, SignedThought.created_at = ''2025-01-01T00:00:00'',
      SignedThought.signature = None, SignedThought.cid = None\<rparr>"


definition demo_identity :: "string \<Rightarrow> Identity" where
  "demo_identity k = \<lparr>name = ''Alice'', pubkey = ''ed25519:'' @ k, Identity.cid = ''cid:blake3:a1'',
                       privkey = Some k\<rparr>"




definition demo_repeater_graph :: TrustGraphWithRepeaters where
  "demo_repeater_graph =
     designate_repeater ''O'' ''R2'' [''climate'']
       (designate_repeater ''O'' ''R1'' [''climate'']
         (add_edge ''R2'' ''T'' 1 (add_edge ''O'' ''R2'' 1
           (add_edge ''R1'' ''T'' (1/10) (add_edge ''O'' ''R1'' (1/10)
              TrustGraphWithRepeaters_init)))))"






chapter \<open>Verification\<close>

section \<open>Bloom filter: membership and hex serialisation\<close>

lemma hexval_hexdigit: "n < 16 \<Longrightarrow> hexval (hexdigit n) = Some n"
  by (auto simp: hexval_def hexdigit_def Let_def)

lemma not_space_hexdigit: "n < 16 \<Longrightarrow> \<not> is_space (hexdigit n)"
  by (auto simp: is_space_def hexdigit_def)

lemma bytes_fromhex_hex: "\<forall>b \<in> set bs. b < 256 \<Longrightarrow> bytes_fromhex (bytes_hex bs) = Inr bs"
proof (induction bs)
  case Nil
  then show ?case by (simp add: bytes_hex_def)
next
  case (Cons b bs)
  then have b: "b div 16 < 16" "b mod 16 < 16" by auto
  have ih: "bytes_fromhex (bytes_hex bs) = Inr bs" using Cons by simp
  have "16 * (b div 16) + b mod 16 = b" by simp
  with b ih show ?case
    using hexval_hexdigit[of "b div 16"] hexval_hexdigit[of "b mod 16"] not_space_hexdigit[of "b div 16"]
    by (simp add: bytes_hex_def)
qed

lemma bit_01: "b = 0 \<or> b = 1 \<Longrightarrow> bit (b::nat) n \<longleftrightarrow> b = 1 \<and> n = 0"
  by (auto simp: bit_simps)

lemma bit_fold_or:
  "bit (fold (\<lambda>j (acc::nat). if P j then acc OR push_bit j (g j) else acc) js a) n
     \<longleftrightarrow> bit a n \<or> (\<exists>j \<in> set js. P j \<and> bit (push_bit j (g j)) n)"
  by (induction js arbitrary: a) (auto simp: bit_or_iff)

lemma bit_pack_byte:
  assumes "bits01 bs"
  shows "bit (pack_byte bs i) n \<longleftrightarrow> n < 8 \<and> i + n < length bs \<and> bs ! (i + n) = 1"
proof -
  have b: "\<And>j. i + j < length bs \<Longrightarrow> bs ! (i + j) = 0 \<or> bs ! (i + j) = 1"
    using assms by (auto simp: bits01_def)
  have "bit (pack_byte bs i) n \<longleftrightarrow>
        (\<exists>j \<in> set [0..<8]. i + j < length bs \<and> bit (push_bit j (bs ! (i + j))) n)"
    unfolding pack_byte_def by (simp only: bit_fold_or) simp
  also have "\<dots> \<longleftrightarrow> (\<exists>j < 8. i + j < length bs \<and> bs ! (i + j) = 1 \<and> n = j)"
    using b by (auto simp: bit_push_bit_iff bit_01)
  finally show ?thesis by auto
qed

lemma unpack_pack_nth:
  assumes "bits01 bs" "j < 8"
  shows "unpack_byte (pack_byte bs i) ! j = (if i + j < length bs then bs ! (i + j) else 0)"
proof -
  have "drop_bit j (pack_byte bs i) AND 1 = of_bool (bit (pack_byte bs i) j)"
    by (simp add: and_one_eq mod2_eq_if bit_iff_odd_drop_bit)
  moreover have "i + j < length bs \<Longrightarrow> bs ! (i + j) = 0 \<or> bs ! (i + j) = 1"
    using assms by (auto simp: bits01_def)
  ultimately show ?thesis using assms
    by (auto simp: unpack_byte_def bit_pack_byte)
qed

lemma length_unpack_byte: "length (unpack_byte b) = 8"
  by (simp add: unpack_byte_def)

lemma concat_chunks_nth:
  assumes "\<And>x. length (f x) = 8" "k < 8 * length xs"
  shows "concat (map f xs) ! k = f (xs ! (k div 8)) ! (k mod 8)"
  using assms(2)
proof (induction xs arbitrary: k)
  case Nil then show ?case by simp
next
  case (Cons x xs)
  show ?case
  proof (cases "k < 8")
    case True then show ?thesis using assms(1) by (simp add: nth_append)
  next
    case False
    then have "k - 8 < 8 * length xs" using Cons.prems by simp
    from Cons.IH[OF this] False show ?thesis using assms(1)
      by (simp add: nth_append le_div_geq le_mod_geq)
  qed
qed


lemma pack_byte_lt_256: "bits01 bs \<Longrightarrow> pack_byte bs i < 256"
proof -
  assume a: "bits01 bs"
  have "take_bit 8 (pack_byte bs i) = pack_byte bs i"
    by (rule bit_eqI) (auto simp: bit_take_bit_iff bit_pack_byte[OF a])
  then have "pack_byte bs i < 2 ^ 8"
    by (simp only: take_bit_nat_eq_self_iff)
  then show ?thesis by simp
qed

lemma unpack_pack_chunks:
  assumes "bits01 bs"
  shows "take (length bs) (concat (map unpack_byte (map (\<lambda>k. pack_byte bs (8 * k)) [0..<(length bs + 7) div 8]))) = bs"
    (is "take _ ?c = bs")
proof (rule nth_equalityI)
  have len: "length ?c = 8 * ((length bs + 7) div 8)"
    by (simp add: length_concat o_def length_unpack_byte sum_list_triv)
  then show "length (take (length bs) ?c) = length bs" by simp
  fix k assume "k < length (take (length bs) ?c)"
  then have k: "k < length bs" by simp
  then have kd: "k div 8 < (length bs + 7) div 8" by simp
  have k8: "k < 8 * length (map (\<lambda>k. pack_byte bs (8 * k)) [0..<(length bs + 7) div 8])"
    using k by simp
  have "?c ! k = unpack_byte (pack_byte bs (8 * (k div 8))) ! (k mod 8)"
    using concat_chunks_nth[of unpack_byte, OF length_unpack_byte k8] kd by simp
  also have "\<dots> = bs ! k"
    using k by (simp add: unpack_pack_nth[OF assms])
  finally show "take (length bs) ?c ! k = bs ! k" using k by simp
qed

lemma from_hex_to_hex:
  assumes "bits01 (bits f)" "length (bits f) = size f"
  shows "\<exists>h. to_hex f = Inr h \<and> from_hex h (size f) (hash_count f) = Inr f"
proof -
  let ?arr = "map (\<lambda>k. pack_byte (bits f) (8 * k)) [0..<(length (bits f) + 7) div 8]"
  have lt: "\<forall>b \<in> set ?arr. b < 256" using pack_byte_lt_256[OF assms(1)] by auto
  then have th: "to_hex f = Inr (bytes_hex ?arr)" by (simp add: to_hex_def Let_def)
  have "from_hex (bytes_hex ?arr) (size f) (hash_count f) = Inr f"
    using bytes_fromhex_hex[OF lt] unpack_pack_chunks[OF assms(1)] assms(2)
    by (simp add: from_hex_def)
  with th show ?thesis by simp
qed

lemma add_loop_fields:
  "add_loop h item js f = Inr f' \<Longrightarrow>
     size f' = size f \<and> hash_count f' = hash_count f \<and> length (bits f') = length (bits f)"
proof (induction js arbitrary: f)
  case Nil then show ?case by simp
next
  case (Cons j js)
  from Cons.prems obtain idx where
    rest: "add_loop h item js (f\<lparr>bits := (bits f)[idx := 1]\<rparr>) = Inr f'"
    by (auto split: sum.splits if_splits)
  from Cons.IH[OF rest] show ?case by simp
qed

lemma add_loop_bits01:
  "add_loop h item js f = Inr f' \<Longrightarrow> bits01 (bits f) \<Longrightarrow> bits01 (bits f')"
proof (induction js arbitrary: f)
  case Nil then show ?case by simp
next
  case (Cons j js)
  from Cons.prems obtain idx where
    rest: "add_loop h item js (f\<lparr>bits := (bits f)[idx := 1]\<rparr>) = Inr f'"
    by (auto split: sum.splits if_splits)
  have "set ((bits f)[idx := 1]) \<subseteq> insert 1 (set (bits f))" by (rule set_update_subset_insert)
  with Cons.prems(2) have "bits01 (bits (f\<lparr>bits := (bits f)[idx := 1]\<rparr>))"
    by (auto simp: bits01_def)
  from Cons.IH[OF rest this] show ?case .
qed

lemma add_loop_keeps:
  "add_loop h item js f = Inr f' \<Longrightarrow> k < length (bits f) \<Longrightarrow> bits f ! k \<noteq> 0 \<Longrightarrow> bits f' ! k \<noteq> 0"
proof (induction js arbitrary: f)
  case Nil then show ?case by simp
next
  case (Cons j js)
  from Cons.prems(1) obtain idx where idx: "idx < length (bits f)" and
    rest: "add_loop h item js (f\<lparr>bits := (bits f)[idx := 1]\<rparr>) = Inr f'"
    by (auto split: sum.splits if_splits)
  have "bits (f\<lparr>bits := (bits f)[idx := 1]\<rparr>) ! k \<noteq> 0"
    using Cons.prems(2,3) idx by (simp add: nth_list_update)
  with Cons.IH[OF rest] Cons.prems(2) show ?case by simp
qed

lemma add_loop_sets:
  "add_loop h item js f = Inr f' \<Longrightarrow> j \<in> set js \<Longrightarrow>
     \<exists>idx. bloom_idx h f item j = Inr idx \<and> idx < length (bits f) \<and> bits f' ! idx \<noteq> 0"
proof (induction js arbitrary: f)
  case Nil then show ?case by simp
next
  case (Cons i js)
  from Cons.prems(1) obtain idx where idx: "bloom_idx h f item i = Inr idx" "idx < length (bits f)"
    and rest: "add_loop h item js (f\<lparr>bits := (bits f)[idx := 1]\<rparr>) = Inr f'"
    by (auto split: sum.splits if_splits)
  let ?g = "f\<lparr>bits := (bits f)[idx := 1]\<rparr>"
  have same: "bloom_idx h ?g item j = bloom_idx h f item j" by (simp add: bloom_idx_def)
  show ?case
  proof (cases "j = i")
    case True
    have "bits ?g ! idx \<noteq> 0" using idx by simp
    then have "bits f' ! idx \<noteq> 0" using add_loop_keeps[OF rest, of idx] idx by simp
    with idx True show ?thesis by simp
  next
    case False
    then have "j \<in> set js" using Cons.prems(2) by simp
    from Cons.IH[OF rest this] same show ?thesis by simp
  qed
qed

lemma contains_loop_True:
  "\<forall>j \<in> set js. \<exists>idx. bloom_idx h f item j = Inr idx \<and> idx < length (bits f) \<and> bits f ! idx \<noteq> 0
     \<Longrightarrow> contains_loop h item js f = Inr True"
  by (induction js) auto

lemma contains_loop_TrueD:
  "contains_loop h item js f = Inr True \<Longrightarrow>
   \<forall>j \<in> set js. \<exists>idx. bloom_idx h f item j = Inr idx \<and> idx < length (bits f) \<and> bits f ! idx \<noteq> 0"
  by (induction js) (auto split: sum.splits if_splits)

lemma add_loop_total:
  "size f > 0 \<Longrightarrow> length (bits f) = size f \<Longrightarrow> \<exists>f'. add_loop h item js f = Inr f'"
proof (induction js arbitrary: f)
  case Nil then show ?case by simp
next
  case (Cons j js)
  let ?idx = "nat (h item j mod int (size f))"
  have i: "bloom_idx h f item j = Inr ?idx" using Cons.prems by (simp add: bloom_idx_def)
  have "h item j mod int (size f) < int (size f)" using Cons.prems by simp
  moreover have "0 \<le> h item j mod int (size f)" using Cons.prems by simp
  ultimately have lt: "?idx < length (bits f)" using Cons.prems by linarith
  have "\<exists>f'. add_loop h item js (f\<lparr>bits := (bits f)[?idx := 1]\<rparr>) = Inr f'"
    by (rule Cons.IH) (use Cons.prems in auto)
  with i lt show ?case by simp
qed

lemma add_then_contains:
  assumes "add h item f = Inr f'"
  shows "maybe_contains h item f' = Inr True"
proof -
  from assms have a: "add_loop h item [0..<hash_count f] f = Inr f'" by (simp add: add_def)
  note p = add_loop_fields[OF a]
  have same: "\<And>i. bloom_idx h f' item i = bloom_idx h f item i" using p by (simp add: bloom_idx_def)
  have "contains_loop h item [0..<hash_count f] f' = Inr True"
  proof (rule contains_loop_True, rule ballI)
    fix j assume "j \<in> set [0..<hash_count f]"
    from add_loop_sets[OF a this] show
      "\<exists>idx. bloom_idx h f' item j = Inr idx \<and> idx < length (bits f') \<and> bits f' ! idx \<noteq> 0"
      using same p by simp
  qed
  then show ?thesis using p by (simp add: maybe_contains_def)
qed

lemma add_keeps_contains:
  assumes "add h item f = Inr f'" "maybe_contains h other f = Inr True"
  shows "maybe_contains h other f' = Inr True"
proof -
  from assms have a: "add_loop h item [0..<hash_count f] f = Inr f'" by (simp add: add_def)
  note p = add_loop_fields[OF a]
  have same: "\<And>i. bloom_idx h f' other i = bloom_idx h f other i" using p by (simp add: bloom_idx_def)
  from assms(2) have "contains_loop h other [0..<hash_count f] f = Inr True"
    by (simp add: maybe_contains_def)
  note d = contains_loop_TrueD[OF this]
  have "contains_loop h other [0..<hash_count f] f' = Inr True"
  proof (rule contains_loop_True, rule ballI)
    fix j assume "j \<in> set [0..<hash_count f]"
    with d obtain idx where i: "bloom_idx h f other j = Inr idx" "idx < length (bits f)" "bits f ! idx \<noteq> 0"
      by blast
    from add_loop_keeps[OF a i(2,3)] i show
      "\<exists>idx. bloom_idx h f' other j = Inr idx \<and> idx < length (bits f') \<and> bits f' ! idx \<noteq> 0"
      using same p by simp
  qed
  then show ?thesis using p by (simp add: maybe_contains_def)
qed


lemma filter_err_Inr:
  "filter_err p xs = Inr ys \<Longrightarrow> set ys \<subseteq> set xs \<and> (\<forall>y \<in> set ys. p y = Inr True)"
proof (induction xs arbitrary: ys)
  case Nil then show ?case by simp
next
  case (Cons x xs)
  from Cons.prems obtain b zs where b: "p x = Inr b" and zs: "filter_err p xs = Inr zs"
    and ys: "ys = (if b then x # zs else zs)"
    by (auto simp: ebind_def split: sum.splits)
  from Cons.IH[OF zs] b ys show ?case by auto
qed

lemma missing_cids_not_present:
  assumes "missing_cids_for_peer h ths pb = Inr ms" "c \<in> set ms"
  shows "maybe_contains h c pb = Inr False"
proof -
  from filter_err_Inr[OF assms(1)[unfolded missing_cids_for_peer_def]] assms(2)
  have "ebind (maybe_contains h c pb) (\<lambda>present. Inr (\<not> present)) = Inr True" by blast
  then show ?thesis by (auto simp: ebind_def split: sum.splits)
qed

lemma needed_loop_not_present:
  "needed_loop h ths pb cs acc = Inr ns \<Longrightarrow> c \<in> set ns \<Longrightarrow>
     c \<in> set acc \<or> maybe_contains h c pb = Inr False"
proof (induction cs arbitrary: acc)
  case Nil then show ?case by simp
next
  case (Cons x cs)
  from Cons.prems(1) obtain t where t: "dict_get ths x = Inr t"
    by (auto simp: ebind_def split: sum.splits)
  show ?case
  proof (cases "created_by t \<noteq> ''GENESIS'' \<and> created_by t \<in> fst ` set ths")
    case True
    with Cons.prems(1) t obtain present where
      p: "maybe_contains h (created_by t) pb = Inr present" and
      r: "needed_loop h ths pb cs (if \<not> present then set_add acc (created_by t) else acc) = Inr ns"
      by (auto simp: ebind_def Let_def split: sum.splits)
    from Cons.IH[OF r Cons.prems(2)] p show ?thesis
      by (auto simp: set_add_def split: if_splits)
  next
    case False
    with Cons.prems(1) t have "needed_loop h ths pb cs acc = Inr ns"
      by (auto simp: ebind_def Let_def split: sum.splits)
    from Cons.IH[OF this Cons.prems(2)] show ?thesis .
  qed
qed

lemma get_missing_cids_not_present:
  assumes "get_missing_cids_for_peer h si self hx = Inr cids"
    and "from_hex hx 1024 3 = Inr pb"
    and "\<And>xs. set (si xs) \<subseteq> set xs"
    and "c \<in> set cids"
  shows "maybe_contains h c pb = Inr False"
proof -
  from assms(1,2) obtain ms ns where
    ms: "missing_cids_for_peer h (thoughts self) pb = Inr ms" and
    ns: "needed_loop h (thoughts self) pb (si ms) [] = Inr ns" and
    cids: "cids = filter (\<lambda>c. c \<notin> set ms) (si ns) @ si ms"
    by (auto simp: get_missing_cids_for_peer_def ebind_def split: sum.splits)
  from assms(4) cids have "c \<in> set (si ns) \<or> c \<in> set (si ms)" by auto
  then have "c \<in> set ns \<or> c \<in> set ms" using assms(3) by blast
  then show ?thesis
  proof
    assume "c \<in> set ns"
    from needed_loop_not_present[OF ns this] show ?thesis by simp
  next
    assume "c \<in> set ms"
    from missing_cids_not_present[OF ms this] show ?thesis .
  qed
qed


text \<open>
  Claim C10. For every CID string \<open>x\<close> added to a bloom filter \<open>f\<close> whose bit array has
  \<open>size f\<close> entries, all 0 or 1 (as every filter built by the constructor, \<^verbatim>\<open>add\<close> and
  \<^verbatim>\<open>from_hex\<close> has): \<^verbatim>\<open>add\<close> succeeds, \<^verbatim>\<open>maybe_contains(x)\<close> is true on the
  result, \<^verbatim>\<open>to_hex\<close> succeeds and \<^verbatim>\<open>from_hex\<close> with the same parameters gives back exactly the
  same filter, so \<open>x\<close> is contained in the reconstructed filter too; later additions never
  remove \<open>x\<close>; and, for the default parameters 1024 and 3 that \<^verbatim>\<open>get_missing_for_peer\<close> passes
  to \<^verbatim>\<open>from_hex\<close>, sync selection against the serialised filter never selects \<open>x\<close>,
  whatever the store holds and in whatever order sets are iterated.
\<close>

theorem bloom_no_false_negatives:
  assumes "size f > 0" and "length (bits f) = size f" and "bits01 (bits f)"
  shows "\<exists>f' hx. add mmh3_hash x f = Inr f'
           \<and> maybe_contains mmh3_hash x f' = Inr True
           \<and> to_hex f' = Inr hx
           \<and> from_hex hx (size f) (hash_count f) = Inr f'
           \<and> (\<forall>y f''. add mmh3_hash y f' = Inr f'' \<longrightarrow> maybe_contains mmh3_hash x f'' = Inr True)
           \<and> (size f = 1024 \<and> hash_count f = 3 \<longrightarrow>
                (\<forall>set_iter self cids. (\<forall>xs. set (set_iter xs) \<subseteq> set xs) \<longrightarrow>
                   get_missing_cids_for_peer mmh3_hash set_iter self hx = Inr cids \<longrightarrow> x \<notin> set cids))"
proof -
  from add_loop_total[OF assms(1,2), of mmh3_hash x "[0..<hash_count f]"]
  obtain f' where f': "add mmh3_hash x f = Inr f'"
    by (auto simp: add_def)
  then have al: "add_loop mmh3_hash x [0..<hash_count f] f = Inr f'" by (simp add: add_def)
  note fl = add_loop_fields[OF al]
  have c: "maybe_contains mmh3_hash x f' = Inr True" by (rule add_then_contains[OF f'])
  have b: "bits01 (bits f')" by (rule add_loop_bits01[OF al assms(3)])
  have l: "length (bits f') = size f'" using fl assms(2) by simp
  from from_hex_to_hex[OF b l] obtain hx where
    hx: "to_hex f' = Inr hx" "from_hex hx (size f') (hash_count f') = Inr f'" by blast
  have keep: "\<forall>y f''. add mmh3_hash y f' = Inr f'' \<longrightarrow> maybe_contains mmh3_hash x f'' = Inr True"
    using add_keeps_contains[OF _ c] by blast
  have sync: "size f = 1024 \<and> hash_count f = 3 \<longrightarrow>
                (\<forall>set_iter self cids. (\<forall>xs. set (set_iter xs) \<subseteq> set xs) \<longrightarrow>
                   get_missing_cids_for_peer mmh3_hash set_iter self hx = Inr cids \<longrightarrow> x \<notin> set cids)"
  proof (intro impI allI notI)
    fix set_iter :: "string list \<Rightarrow> string list" and self :: WellspringNode and cids
    assume d: "size f = 1024 \<and> hash_count f = 3"
      and si: "\<forall>xs. set (set_iter xs) \<subseteq> set xs"
      and g: "get_missing_cids_for_peer mmh3_hash set_iter self hx = Inr cids"
      and x: "x \<in> set cids"
    from hx(2) d fl have fh: "from_hex hx 1024 3 = Inr f'" by simp
    from get_missing_cids_not_present[OF g fh _ x] si
    have "maybe_contains mmh3_hash x f' = Inr False" by blast
    with c show False by simp
  qed
  from f' c hx fl keep sync show ?thesis by auto
qed

theorem bloom_no_false_negatives_witness:
  "size (BloomFilter_init 1024 3) > 0
   \<and> length (bits (BloomFilter_init 1024 3)) = size (BloomFilter_init 1024 3)
   \<and> bits01 (bits (BloomFilter_init 1024 3))
   \<and> (\<exists>f' hx. add demo_hash ''baf_1'' (BloomFilter_init 1024 3) = Inr f'
           \<and> maybe_contains demo_hash ''baf_1'' f' = Inr True
           \<and> to_hex f' = Inr hx
           \<and> from_hex hx 1024 3 = Inr f')"
proof -
  have h: "size (BloomFilter_init 1024 3) > 0"
    "length (bits (BloomFilter_init 1024 3)) = size (BloomFilter_init 1024 3)"
    "bits01 (bits (BloomFilter_init 1024 3))"
    by (simp_all add: BloomFilter_init_def bits01_def)
  from bloom_no_false_negatives[OF h, of demo_hash "''baf_1''"] h show ?thesis
    by (auto simp: BloomFilter_init_def)
qed

section \<open>Relevance score\<close>

lemma relevance_score_formula:
  assumes "trust_weight row = Some w" "w \<noteq> 0" "chain_depth row = Some c" "c \<ge> 0"
    "emb_row.created_at row = Some t" "t \<noteq> 0" "d > 0"
  shows "relevance_score True d now_ms s row
         = Inr (spec_relevance s w c d (real_of_int (now_ms - t) / 3600000))"
proof -
  have "1 + real_of_int c * 0.1 > 0" using assms(4) by simp
  then have "1 + real_of_int c * 0.1 \<noteq> 0" by linarith
  then show ?thesis using assms
    by (simp add: relevance_score_def spec_relevance_def Let_def mult.commute)
qed

text \<open>
  Claim C8 (the code departs from it). With trust weighting enabled the score of a row is
  \<open>similarity \<times> w \<times> 1 / (1 + 0.1 c) \<times> max 0.5 (1 - d h)\<close> only for a stored weight \<open>w \<noteq> 0\<close>
  (lemma \<open>relevance_score_formula\<close>, for a row whose stored creation time is not 0 either,
  which the same kind of test would take for missing). At the boundary \<open>w = 0\<close> the test
  \<^verbatim>\<open>trust_weight if trust_weight else 1.0\<close> replaces the stored weight by 1: a row of weight 0
  scores exactly as the same row with weight 1.
\<close>

theorem relevance_score_zero_weight:
  "relevance_score True d now_ms s (row\<lparr>trust_weight := Some 0\<rparr>)
     = relevance_score True d now_ms s (row\<lparr>trust_weight := Some 1\<rparr>)"
  by (simp add: relevance_score_def Let_def)

lemma relevance_score_zero_weight_demo:
  "relevance_score True 0 0 (1/2) demo_row = Inr (1/2) \<and> spec_relevance (1/2) 0 0 0 0 = 0"
  by (simp add: relevance_score_def demo_row_def spec_relevance_def)

lemma query_zero_weight_demo:
  "query (\<lambda>_ _. 1/2) 0 [demo_row] () 10 None True True 0
     = Inr [(''cid:blake3:00'', 1/2, Some ''in-window thought'')]"
  by (simp add: query_def relevance_score_def demo_row_def ebind_def py_take_def)


section \<open>Store idempotence\<close>


lemma map_of_dict_set: "map_of (dict_set d k v) = (map_of d)(k \<mapsto> v)"
  by (induction d) (auto simp: fun_eq_iff)






section \<open>Sync selection and visibility\<close>

lemma can_share_not_local_forever:
  "can_share_with_peer self t p = Inr (True, r) \<Longrightarrow> visibility t \<noteq> Some ''local_forever''"
  by (auto simp: can_share_with_peer_def)

lemma share_loop_sound:
  "share_loop self p cs (sh, f, st) = Inr (sh', f', st') \<Longrightarrow> c \<in> set sh' \<Longrightarrow>
     c \<in> set sh \<or> (\<exists>t r. dict_get (thoughts self) c = Inr t
                          \<and> can_share_with_peer self t p = Inr (True, r))"
proof (induction cs arbitrary: sh f st)
  case Nil
  then show ?case by simp
next
  case (Cons x cs)
  from Cons.prems(1) obtain t b r where t: "dict_get (thoughts self) x = Inr t"
    and cs: "can_share_with_peer self t p = Inr (b, r)"
    by (auto simp: ebind_def split: sum.splits)
  show ?case
  proof (cases b)
    case True
    with Cons.prems(1) t cs have "share_loop self p cs (set_add sh x, f, st) = Inr (sh', f', st')"
      by (simp add: ebind_def)
    from Cons.IH[OF this Cons.prems(2)] t cs True show ?thesis
      by (auto simp: set_add_def split: if_splits)
  next
    case False
    with Cons.prems(1) t cs
    have "share_loop self p cs (sh, f + 1, count_filtered r st) = Inr (sh', f', st')"
      by (simp add: ebind_def)
    from Cons.IH[OF this Cons.prems(2)] show ?thesis .
  qed
qed

lemma needed_loop_v2_sound:
  "needed_loop_v2 h self p pb cs acc = Inr ns \<Longrightarrow> c \<in> set ns \<Longrightarrow>
     c \<in> set acc \<or> (\<exists>t r. dict_get (thoughts self) c = Inr t
                           \<and> can_share_with_peer self t p = Inr (True, r))"
proof (induction cs arbitrary: acc)
  case Nil
  then show ?case by simp
next
  case (Cons x cs)
  from Cons.prems(1) obtain t where t: "dict_get (thoughts self) x = Inr t"
    by (auto simp: ebind_def split: sum.splits)
  let ?cb = "created_by t"
  show ?case
  proof (cases "?cb \<noteq> ''GENESIS'' \<and> ?cb \<in> fst ` set (thoughts self)")
    case False
    with Cons.prems(1) t have "needed_loop_v2 h self p pb cs acc = Inr ns"
      by (auto simp: ebind_def Let_def)
    from Cons.IH[OF this Cons.prems(2)] show ?thesis .
  next
    case True
    with Cons.prems(1) t obtain present where pr: "maybe_contains h ?cb pb = Inr present"
      by (auto simp: ebind_def Let_def split: sum.splits)
    show ?thesis
    proof (cases present)
      case True
      with Cons.prems(1) t pr \<open>?cb \<noteq> ''GENESIS'' \<and> ?cb \<in> fst ` set (thoughts self)\<close>
      have "needed_loop_v2 h self p pb cs acc = Inr ns"
        by (auto simp: ebind_def Let_def)
      from Cons.IH[OF this Cons.prems(2)] show ?thesis .
    next
      case False
      with Cons.prems(1) t pr \<open>?cb \<noteq> ''GENESIS'' \<and> ?cb \<in> fst ` set (thoughts self)\<close>
      obtain it b r where it: "dict_get (thoughts self) ?cb = Inr it"
        and cs: "can_share_with_peer self it p = Inr (b, r)"
        and rest: "needed_loop_v2 h self p pb cs (if b then set_add acc ?cb else acc) = Inr ns"
        by (auto simp: ebind_def Let_def split: sum.splits)
      from Cons.IH[OF rest Cons.prems(2)] it cs show ?thesis
        by (auto simp: set_add_def split: if_splits)
    qed
  qed
qed

lemma map_err_Inr:
  "map_err f xs = Inr ys \<Longrightarrow> length ys = length xs \<and> (\<forall>i < length xs. f (xs ! i) = Inr (ys ! i))"
proof (induction xs arbitrary: ys)
  case Nil
  then show ?case by simp
next
  case (Cons x xs)
  from Cons.prems obtain y zs where y: "f x = Inr y" and zs: "map_err f xs = Inr zs"
    and ys: "ys = y # zs"
    by (auto simp: ebind_def split: sum.splits)
  from Cons.IH[OF zs] y ys show ?case by (auto simp: nth_Cons split: nat.splits)
qed

lemma map_err_set:
  assumes "map_err f xs = Inr ys" "y \<in> set ys"
  shows "\<exists>x \<in> set xs. f x = Inr y"
proof -
  from assms(2) obtain i where i: "i < length ys" "ys ! i = y" by (auto simp: in_set_conv_nth)
  with map_err_Inr[OF assms(1)] show ?thesis by (metis nth_mem)
qed

lemma v2_selected_shareable:
  assumes "get_missing_cids_for_peer_v2 h si self hx p = Inr (cids, stats, self')"
    and "\<And>xs. set (si xs) \<subseteq> set xs"
    and "c \<in> set cids"
  shows "\<exists>t r. dict_get (thoughts self) c = Inr t \<and> can_share_with_peer self t p = Inr (True, r)"
proof -
  from assms(1) obtain pb ms sh f st ns where
    sh: "share_loop self p (si ms)
           ([], filtered_count self,
            \<lparr>total_checked = length (thoughts self), missing = length ms,
             filtered_local_forever = 0, filtered_pool_access = 0,
             filtered_participants = 0, shared = 0\<rparr>) = Inr (sh, f, st)" and
    ns: "needed_loop_v2 h self p pb (si sh) [] = Inr ns" and
    cids: "cids = filter (\<lambda>c. c \<notin> set sh) (si ns) @ si sh"
    by (auto simp: get_missing_cids_for_peer_v2_def ebind_def Let_def split: sum.splits prod.splits)
  from assms(3) cids have "c \<in> set (si ns) \<or> c \<in> set (si sh)" by auto
  then have "c \<in> set ns \<or> c \<in> set sh" using assms(2) by blast
  then show ?thesis
  proof
    assume "c \<in> set ns"
    from needed_loop_v2_sound[OF ns this] show ?thesis by simp
  next
    assume "c \<in> set sh"
    from share_loop_sound[OF sh this] show ?thesis by simp
  qed
qed

text \<open>
  Claim C3, as amended. In the visibility-aware node (\<^verbatim>\<open>WellspringNodeV2.get_missing_for_peer\<close>),
  for every store, every received bloom filter and every peer, no thought whose visibility
  is \<^verbatim>\<open>"local_forever"\<close> is in the list that sync selection returns, in whatever order sets
  are iterated.
\<close>

theorem local_forever_never_selected:
  assumes "get_missing_for_peer_v2 mmh3_hash set_iter self peer_bloom_hex peer_cid
             = Inr (result, stats, self')"
    and "\<forall>xs. set (set_iter xs) \<subseteq> set xs"
  shows "\<forall>t \<in> set result. visibility t \<noteq> Some ''local_forever''"
proof
  fix t assume t: "t \<in> set result"
  from assms(1) obtain cids where
    c: "get_missing_cids_for_peer_v2 mmh3_hash set_iter self peer_bloom_hex peer_cid
          = Inr (cids, stats, self')" and
    m: "map_err (dict_get (thoughts self)) cids = Inr result"
    by (auto simp: get_missing_for_peer_v2_def ebind_def split: sum.splits prod.splits)
  from map_err_set[OF m t] obtain k where k: "k \<in> set cids" "dict_get (thoughts self) k = Inr t"
    by blast
  from v2_selected_shareable[OF c _ k(1)] assms(2)
  obtain t' r where "dict_get (thoughts self) k = Inr t'"
    "can_share_with_peer self t' peer_cid = Inr (True, r)" by blast
  with k(2) have "can_share_with_peer self t peer_cid = Inr (True, r)" by simp
  then show "visibility t \<noteq> Some ''local_forever''" by (rule can_share_not_local_forever)
qed

lemma demo_run_v2_result:
  "(case get_missing_for_peer_v2 demo_hash id demo_node2 zero_bloom_hex ''baf_bob'' of
      Inl e \<Rightarrow> None | Inr (result, stats, self') \<Rightarrow> Some result)
   = Some [alice_note, alice_identity]"
  by code_simp

lemma demo_run_v2:
  "\<exists>stats self'. get_missing_for_peer_v2 demo_hash id demo_node2 zero_bloom_hex ''baf_bob''
     = Inr ([alice_note, alice_identity], stats, self')"
  using demo_run_v2_result by (auto split: sum.splits prod.splits)

theorem local_forever_never_selected_witness:
  "(\<exists>stats self'. get_missing_for_peer_v2 demo_hash id demo_node2 zero_bloom_hex ''baf_bob''
       = Inr ([alice_note, alice_identity], stats, self'))
   \<and> secret_thought \<in> snd ` set (thoughts demo_node2)
   \<and> visibility secret_thought = Some ''local_forever''
   \<and> visibility alice_note \<noteq> Some ''local_forever''
   \<and> visibility alice_identity \<noteq> Some ''local_forever''"
proof -
  from demo_run_v2 obtain stats self' where
    r: "get_missing_for_peer_v2 demo_hash id demo_node2 zero_bloom_hex ''baf_bob''
          = Inr ([alice_note, alice_identity], stats, self')" by blast
  have "\<forall>xs :: string list. set (id xs) \<subseteq> set xs" by simp
  from local_forever_never_selected[OF r this]
  have "visibility alice_note \<noteq> Some ''local_forever''"
    "visibility alice_identity \<noteq> Some ''local_forever''" by simp_all
  moreover have "secret_thought \<in> snd ` set (thoughts demo_node2)"
    "visibility secret_thought = Some ''local_forever''"
    by (simp_all add: demo_node2_def secret_thought_def)
  ultimately show ?thesis using r by blast
qed

text \<open>
  Claim C3 as stated fails on the first node version: \<^verbatim>\<open>WellspringNode.get_missing_for_peer\<close>
  has no visibility filter (and no peer argument), and sends a stored local-forever thought
  to a peer whose filter does not report it.
\<close>

theorem local_forever_sent_by_v1_counterexample:
  "get_missing_for_peer demo_hash id demo_node1 zero_bloom_hex = Inr [secret_thought]
   \<and> visibility secret_thought = Some ''local_forever''"
  by code_simp


section \<open>The share decision\<close>

lemma py_eq_JStr: "py_eq e (JStr s) \<longleftrightarrow> e = JStr s"
  by (cases e) (auto split: json.splits)

lemma py_eq_JNull: "py_eq e JNull \<longleftrightarrow> e = JNull"
  by (cases e) (auto split: json.splits)

lemma can_share_public:
  "visibility t = None \<or> visibility t = Some ''public'' \<Longrightarrow>
     can_share_with_peer self t p = Inr (True, ''public'')"
  by (auto simp: can_share_with_peer_def)

lemma can_share_pool:
  assumes "visibility t = Some (''pool:'' @ pool)"
  shows "\<exists>r. can_share_with_peer self t p
           = Inr (p \<in> (case pool_memberships self pool of None \<Rightarrow> {} | Some m \<Rightarrow> m)
                  \<or> pool \<in> (case peer_shared_pools self p of None \<Rightarrow> {} | Some s \<Rightarrow> s), r)"
  using assms by (simp add: can_share_with_peer_def is_pool_member_def get_shared_pools_def Let_def)

lemma can_share_unknown:
  assumes "visibility t = Some v" "v \<noteq> ''public''" "v \<noteq> ''local_forever''"
    "v \<noteq> ''participants_only''" "\<not> prefix ''pool:'' v"
  shows "can_share_with_peer self t p = Inr (False, ''unknown_visibility:'' @ v)"
  using assms by (simp add: can_share_with_peer_def)

text \<open>
  A participants-only thought and a registered peer whose identity carries a string name:
  shared iff the peer's CID or its name is an element of the participants list.
\<close>

lemma can_share_participants:
  assumes "visibility t = Some ''participants_only''"
    and "map_of (content t) ''participants'' = Some (JArr es)"
    and "known_peers self p = Some ident" "map_of (content ident) ''name'' = Some (JStr nm)"
  shows "\<exists>r. can_share_with_peer self t p = Inr (JStr p \<in> set es \<or> JStr nm \<in> set es, r)"
  using assms
  by (auto simp: can_share_with_peer_def Let_def py_in_def ebind_def py_eq_JStr)

lemma can_share_participants_unregistered:
  assumes "visibility t = Some ''participants_only''"
    and "map_of (content t) ''participants'' = Some (JArr es)"
    and "known_peers self p = None"
  shows "\<exists>r. can_share_with_peer self t p = Inr (JStr p \<in> set es \<or> JNull \<in> set es, r)"
  using assms
  by (auto simp: can_share_with_peer_def Let_def py_in_def ebind_def py_eq_JStr py_eq_JNull)

text \<open>
  Claim C4 (the code departs from it). The share decision is the specification's table on
  public, local-forever, pool-scoped and unknown visibilities (lemmas \<open>can_share_public\<close>,
  \<open>can_share_not_local_forever\<close>, \<open>can_share_pool\<close>, \<open>can_share_unknown\<close>) and on
  participants-only thoughts for a peer with a registered string name
  (\<open>can_share_participants\<close>). For a peer that is not registered, \<^verbatim>\<open>peer_name\<close> is
  \<^verbatim>\<open>None\<close> and the test \<^verbatim>\<open>peer_name in participants\<close> succeeds on a participants list
  that holds a \<^verbatim>\<open>null\<close> (\<open>can_share_participants_unregistered\<close>): the thought below is
  shared with a stranger whose CID and name are not in the list.
\<close>

theorem can_share_null_participant:
  "can_share_with_peer demo_node2 null_participants_thought ''baf_stranger''
     = Inr (True, ''is_participant'')"
  by (simp add: can_share_with_peer_def demo_node2_def null_participants_thought_def
      Let_def py_in_def ebind_def)

section \<open>Ordering of a synced batch\<close>

text \<open>
  On the sending side, the loop that is meant to put identities first adds nothing: a creator
  counts as needed only if it is stored here and the peer's filter does not report it (and,
  in the visibility-aware node, if it may be shared), and every such thought was already
  selected by the earlier passes. What is sent is the selected set, in the order in which the
  set is iterated.
\<close>

lemma filter_err_complete:
  "filter_err p xs = Inr ys \<Longrightarrow> x \<in> set xs \<Longrightarrow> p x = Inr True \<Longrightarrow> x \<in> set ys"
proof (induction xs arbitrary: ys)
  case Nil then show ?case by simp
next
  case (Cons a xs)
  from Cons.prems(1) obtain b zs where b: "p a = Inr b" and zs: "filter_err p xs = Inr zs"
    and ys: "ys = (if b then a # zs else zs)"
    by (auto simp: ebind_def split: sum.splits)
  show ?case
  proof (cases "x = a")
    case True
    with b Cons.prems(3) ys show ?thesis by simp
  next
    case False
    with Cons.prems(2) have "x \<in> set xs" by simp
    from Cons.IH[OF zs this Cons.prems(3)] ys show ?thesis by simp
  qed
qed

lemma missing_cids_complete:
  assumes "missing_cids_for_peer h ths pb = Inr ms" "c \<in> fst ` set ths"
    "maybe_contains h c pb = Inr False"
  shows "c \<in> set ms"
  by (rule filter_err_complete[OF assms(1)[unfolded missing_cids_for_peer_def]])
     (use assms(2,3) in \<open>simp_all add: ebind_def\<close>)

lemma needed_loop_stored:
  "needed_loop h ths pb cs acc = Inr ns \<Longrightarrow> c \<in> set ns \<Longrightarrow> c \<in> set acc \<or> c \<in> fst ` set ths"
proof (induction cs arbitrary: acc)
  case Nil then show ?case by simp
next
  case (Cons x cs)
  from Cons.prems(1) obtain t where t: "dict_get ths x = Inr t"
    by (auto simp: ebind_def split: sum.splits)
  show ?case
  proof (cases "created_by t \<noteq> ''GENESIS'' \<and> created_by t \<in> fst ` set ths")
    case True
    with Cons.prems(1) t obtain present where
      r: "needed_loop h ths pb cs (if \<not> present then set_add acc (created_by t) else acc) = Inr ns"
      by (auto simp: ebind_def Let_def split: sum.splits)
    from Cons.IH[OF r Cons.prems(2)] True show ?thesis
      by (auto simp: set_add_def split: if_splits)
  next
    case False
    with Cons.prems(1) t have "needed_loop h ths pb cs acc = Inr ns"
      by (auto simp: ebind_def Let_def split: sum.splits)
    from Cons.IH[OF this Cons.prems(2)] show ?thesis .
  qed
qed

lemma identities_first_prefix_empty:
  assumes "get_missing_cids_for_peer h si self hx = Inr cids"
    and "\<And>xs. set (si xs) \<subseteq> set xs"
  shows "\<exists>pb ms. from_hex hx 1024 3 = Inr pb
            \<and> missing_cids_for_peer h (thoughts self) pb = Inr ms \<and> cids = si ms"
proof -
  from assms(1) obtain pb ms ns where
    pb: "from_hex hx 1024 3 = Inr pb" and
    ms: "missing_cids_for_peer h (thoughts self) pb = Inr ms" and
    ns: "needed_loop h (thoughts self) pb (si ms) [] = Inr ns" and
    cids: "cids = filter (\<lambda>c. c \<notin> set ms) (si ns) @ si ms"
    by (auto simp: get_missing_cids_for_peer_def ebind_def split: sum.splits)
  have "c \<in> set ms" if "c \<in> set (si ns)" for c
  proof -
    from that assms(2) have c: "c \<in> set ns" by blast
    from needed_loop_stored[OF ns c] have "c \<in> fst ` set (thoughts self)" by simp
    moreover from needed_loop_not_present[OF ns c] have "maybe_contains h c pb = Inr False" by simp
    ultimately show ?thesis by (rule missing_cids_complete[OF ms])
  qed
  then have "filter (\<lambda>c. c \<notin> set ms) (si ns) = []" by (simp add: filter_empty_conv)
  with pb ms cids show ?thesis by simp
qed

lemma share_loop_complete:
  "share_loop self p cs (sh, f, st) = Inr (sh', f', st') \<Longrightarrow>
     c \<in> set sh \<or> (c \<in> set cs \<and> dict_get (thoughts self) c = Inr t
                     \<and> can_share_with_peer self t p = Inr (True, r)) \<Longrightarrow> c \<in> set sh'"
proof (induction cs arbitrary: sh f st)
  case Nil
  then show ?case by simp
next
  case (Cons x cs)
  from Cons.prems(1) obtain t' b r' where t: "dict_get (thoughts self) x = Inr t'"
    and cs: "can_share_with_peer self t' p = Inr (b, r')"
    by (auto simp: ebind_def split: sum.splits)
  show ?case
  proof (cases b)
    case True
    with Cons.prems(1) t cs have "share_loop self p cs (set_add sh x, f, st) = Inr (sh', f', st')"
      by (simp add: ebind_def)
    then show ?thesis
      by (rule Cons.IH) (use Cons.prems(2) in \<open>auto simp: set_add_def\<close>)
  next
    case False
    with Cons.prems(1) t cs
    have "share_loop self p cs (sh, f + 1, count_filtered r' st) = Inr (sh', f', st')"
      by (simp add: ebind_def)
    then show ?thesis
      by (rule Cons.IH) (use Cons.prems(2) t cs False in auto)
  qed
qed

lemma needed_loop_v2_missing:
  "needed_loop_v2 h self p pb cs acc = Inr ns \<Longrightarrow> c \<in> set ns \<Longrightarrow>
     c \<in> set acc \<or> (c \<in> fst ` set (thoughts self) \<and> maybe_contains h c pb = Inr False)"
proof (induction cs arbitrary: acc)
  case Nil
  then show ?case by simp
next
  case (Cons x cs)
  from Cons.prems(1) obtain t where t: "dict_get (thoughts self) x = Inr t"
    by (auto simp: ebind_def split: sum.splits)
  let ?cb = "created_by t"
  show ?case
  proof (cases "?cb \<noteq> ''GENESIS'' \<and> ?cb \<in> fst ` set (thoughts self)")
    case False
    with Cons.prems(1) t have "needed_loop_v2 h self p pb cs acc = Inr ns"
      by (auto simp: ebind_def Let_def)
    from Cons.IH[OF this Cons.prems(2)] show ?thesis .
  next
    case True
    with Cons.prems(1) t obtain present where pr: "maybe_contains h ?cb pb = Inr present"
      by (auto simp: ebind_def Let_def split: sum.splits)
    show ?thesis
    proof (cases present)
      case True
      with Cons.prems(1) t pr \<open>?cb \<noteq> ''GENESIS'' \<and> ?cb \<in> fst ` set (thoughts self)\<close>
      have "needed_loop_v2 h self p pb cs acc = Inr ns"
        by (auto simp: ebind_def Let_def)
      from Cons.IH[OF this Cons.prems(2)] show ?thesis .
    next
      case False
      with Cons.prems(1) t pr \<open>?cb \<noteq> ''GENESIS'' \<and> ?cb \<in> fst ` set (thoughts self)\<close>
      obtain b where
        rest: "needed_loop_v2 h self p pb cs (if b then set_add acc ?cb else acc) = Inr ns"
        by (auto simp: ebind_def Let_def split: sum.splits)
      from Cons.IH[OF rest Cons.prems(2)] pr False
        \<open>?cb \<noteq> ''GENESIS'' \<and> ?cb \<in> fst ` set (thoughts self)\<close>
      show ?thesis
        by (auto simp: set_add_def split: if_splits)
    qed
  qed
qed

lemma identities_first_prefix_empty_v2:
  assumes "get_missing_cids_for_peer_v2 h si self hx p = Inr (cids, stats, self')"
    and "\<And>xs. set (si xs) = set xs"
  shows "\<exists>pb ms sh f st. from_hex hx 1024 3 = Inr pb
            \<and> missing_cids_for_peer h (thoughts self) pb = Inr ms
            \<and> share_loop self p (si ms)
                 ([], filtered_count self,
                  \<lparr>total_checked = length (thoughts self), missing = length ms,
                   filtered_local_forever = 0, filtered_pool_access = 0,
                   filtered_participants = 0, shared = 0\<rparr>) = Inr (sh, f, st)
            \<and> cids = si sh"
proof -
  from assms(1) obtain pb ms sh f st ns where
    pb: "from_hex hx 1024 3 = Inr pb" and
    ms: "missing_cids_for_peer h (thoughts self) pb = Inr ms" and
    sh: "share_loop self p (si ms)
                 ([], filtered_count self,
                  \<lparr>total_checked = length (thoughts self), missing = length ms,
                   filtered_local_forever = 0, filtered_pool_access = 0,
                   filtered_participants = 0, shared = 0\<rparr>) = Inr (sh, f, st)" and
    ns: "needed_loop_v2 h self p pb (si sh) [] = Inr ns" and
    cids: "cids = filter (\<lambda>c. c \<notin> set sh) (si ns) @ si sh"
    by (auto simp: get_missing_cids_for_peer_v2_def ebind_def Let_def split: sum.splits prod.splits)
  have "c \<in> set sh" if "c \<in> set (si ns)" for c
  proof -
    from that assms(2) have c: "c \<in> set ns" by simp
    from needed_loop_v2_missing[OF ns c]
    have "c \<in> fst ` set (thoughts self)" "maybe_contains h c pb = Inr False" by simp_all
    then have "c \<in> set ms" by (rule missing_cids_complete[OF ms])
    then have m: "c \<in> set (si ms)" using assms(2) by simp
    from needed_loop_v2_sound[OF ns c] obtain t r where
      "dict_get (thoughts self) c = Inr t" "can_share_with_peer self t p = Inr (True, r)" by auto
    with m show ?thesis by (intro share_loop_complete[OF sh]) auto
  qed
  then have "filter (\<lambda>c. c \<notin> set sh) (si ns) = []" by (simp add: filter_empty_conv)
  with pb ms sh cids show ?thesis by blast
qed

lemma demo_run_v1:
  "get_missing_for_peer demo_hash id demo_node3 zero_bloom_hex
     = Inr [alice_reply, alice_note, alice_identity]"
  by code_simp

text \<open>
  Claim C5 (the code departs from it). \<^verbatim>\<open>get_missing_for_peer\<close> means to send identities
  first (its comment: \<^verbatim>\<open>identities first (so receiver can verify), then content\<close>), but its loop over
  the needed identities skips every identity that is already selected, and every needed
  identity is (\<open>identities_first_prefix_empty\<close>, \<open>identities_first_prefix_empty_v2\<close>); the
  selected thoughts are then appended in the iteration order of the set, and neither node
  version looks at \<^verbatim>\<open>type\<close> or \<^verbatim>\<open>created_at\<close>. Below, with a peer that has nothing and a set
  iterated in insertion order, the first node sends a reply before an older note and both
  before the identity thought of their creator, and the visibility-aware node sends the
  note before that identity.
\<close>

theorem sync_stream_identity_last:
  "get_missing_for_peer demo_hash id demo_node3 zero_bloom_hex
     = Inr [alice_reply, alice_note, alice_identity]
   \<and> (\<exists>stats self'. get_missing_for_peer_v2 demo_hash id demo_node2 zero_bloom_hex ''baf_bob''
         = Inr ([alice_note, alice_identity], stats, self'))
   \<and> created_by alice_reply = cid alice_identity
   \<and> created_by alice_note = cid alice_identity
   \<and> type alice_identity = ''identity''
   \<and> type alice_reply \<noteq> ''identity'' \<and> type alice_note \<noteq> ''identity''
   \<and> created_at alice_note < created_at alice_reply"
  using demo_run_v1 demo_run_v2 by (simp add: alice_note_def alice_identity_def alice_reply_def)

section \<open>CID and signature\<close>






text \<open>
  Claim C1 as stated fails on \<^verbatim>\<open>core.py\<close>: \<^verbatim>\<open>create_thought\<close> computes the CID from the
  signable fields, which have no signature among them, and signs afterwards. Two identities
  with the same CID and different keys produce different signatures and the same CID. On
  the sync nodes, the visibility \<^verbatim>\<open>""\<close> is a field value that does not enter the hash: the
  note signed with it has the CID of the note signed with no visibility.
\<close>

lemma signable_no_signature: "map_of (signable ty co cb ca be vis src) ''signature'' = None"
  by (auto simp: signable_def Let_def map_of_dict_set split: option.splits)

lemma create_thought_cid:
  assumes "create_thought dumps blake3_hex nacl_sign_hex now_ms co ty ident be vis src = Inr T"
  shows "Thought.cid T = core_compute_cid dumps blake3_hex
           (JObj (signable ty co (Identity.cid ident) now_ms (case be of None \<Rightarrow> [] | Some b \<Rightarrow> b) vis src))"
  using assms by (auto simp: create_thought_def Let_def ebind_def split: sum.splits)


lemma str_replace_none:
  "CHR '':'' \<notin> set s \<Longrightarrow> str_replace ''ed25519:'' [] s = s"
proof (induction s)
  case Nil
  then show ?case by simp
next
  case (Cons c cs)
  have "\<not> prefix ''ed25519:'' (c # cs)"
  proof
    assume "prefix ''ed25519:'' (c # cs)"
    then have "set ''ed25519:'' \<subseteq> set (c # cs)" by (rule set_mono_prefix)
    then show False using Cons.prems by auto
  qed
  with Cons show ?case by auto
qed

lemma str_replace_prefixed:
  "CHR '':'' \<notin> set s \<Longrightarrow> str_replace ''ed25519:'' [] (''ed25519:'' @ s) = s"
  using str_replace_none[of s] by simp

text \<open>
  Claim C2, as amended. In \<^verbatim>\<open>core.py\<close> the signature of every thought that
  \<^verbatim>\<open>create_thought\<close> returns is the signature, under the identity's private key, of the CID
  string of the thought; and \<^verbatim>\<open>verify_signature(T, pk)\<close> is true iff \<open>T\<close>'s signature
  verifies against \<open>T\<close>'s CID under \<open>pk\<close> with every \<^verbatim>\<open>ed25519:\<close> removed, that is, under the
  hex key itself for a public key of the form \<^verbatim>\<open>ed25519:<hex>\<close>.
\<close>

theorem core_signature_over_cid:
  assumes "create_thought dumps blake3_hex nacl_sign_hex now_ms co ty ident be vis src = Inr T"
  shows "(\<exists>k. privkey ident = Some k \<and> k \<noteq> []
            \<and> nacl_sign_hex k (Thought.cid T) = Inr (Thought.signature T))
         \<and> (\<forall>pk. verify_signature nacl_verify_hex T pk
               = nacl_verify_hex (str_replace ''ed25519:'' [] pk) (Thought.cid T) (Thought.signature T))
         \<and> (\<forall>key_hex. CHR '':'' \<notin> set key_hex \<longrightarrow>
               verify_signature nacl_verify_hex T (''ed25519:'' @ key_hex)
               = nacl_verify_hex key_hex (Thought.cid T) (Thought.signature T))"
proof (intro conjI allI impI)
  from assms obtain sig where
    s: "sign_content nacl_sign_hex (core_compute_cid dumps blake3_hex
          (JObj (signable ty co (Identity.cid ident) now_ms (case be of None \<Rightarrow> [] | Some b \<Rightarrow> b) vis src)))
          ident = Inr sig"
    and T: "Thought.signature T = sig"
      "Thought.cid T = core_compute_cid dumps blake3_hex
          (JObj (signable ty co (Identity.cid ident) now_ms (case be of None \<Rightarrow> [] | Some b \<Rightarrow> b) vis src))"
    by (auto simp: create_thought_def Let_def ebind_def split: sum.splits)
  from s T show "\<exists>k. privkey ident = Some k \<and> k \<noteq> []
            \<and> nacl_sign_hex k (Thought.cid T) = Inr (Thought.signature T)"
    by (auto simp: sign_content_def split: option.splits if_splits)
next
  fix pk
  show "verify_signature nacl_verify_hex T pk
          = nacl_verify_hex (str_replace ''ed25519:'' [] pk) (Thought.cid T) (Thought.signature T)"
    by (simp add: verify_signature_def Let_def)
next
  fix key_hex :: string assume "CHR '':'' \<notin> set key_hex"
  then show "verify_signature nacl_verify_hex T (''ed25519:'' @ key_hex)
               = nacl_verify_hex key_hex (Thought.cid T) (Thought.signature T)"
    using str_replace_prefixed[of key_hex] by (simp add: verify_signature_def Let_def)
qed

lemma demo_create:
  "\<exists>T. create_thought demo_dumps rev demo_nacl_sign 1700000000000 (JStr ''Hello, WoT!'') ''basic''
       (demo_identity ''k1'') None None None = Inr T"
  by (simp add: create_thought_def Let_def ebind_def sign_content_def demo_identity_def
      demo_nacl_sign_def)

theorem core_signature_over_cid_witness:
  "\<exists>T. create_thought demo_dumps rev demo_nacl_sign 1700000000000 (JStr ''Hello, WoT!'') ''basic''
       (demo_identity ''k1'') None None None = Inr T
     \<and> Thought.signature T = demo_sign ''k1'' (Thought.cid T)
     \<and> verify_signature demo_nacl_verify T (pubkey (demo_identity ''k1''))
     \<and> \<not> verify_signature demo_nacl_verify T (pubkey (demo_identity ''k2''))"
proof -
  from demo_create obtain T where
    T: "create_thought demo_dumps rev demo_nacl_sign 1700000000000 (JStr ''Hello, WoT!'') ''basic''
       (demo_identity ''k1'') None None None = Inr T" by blast
  note th = core_signature_over_cid[OF T, of demo_nacl_verify]
  from th have sg: "Thought.signature T = demo_sign ''k1'' (Thought.cid T)"
    by (auto simp: demo_identity_def demo_nacl_sign_def)
  from th have v: "\<And>key_hex. CHR '':'' \<notin> set key_hex \<Longrightarrow>
       verify_signature demo_nacl_verify T (''ed25519:'' @ key_hex)
         = demo_nacl_verify key_hex (Thought.cid T) (Thought.signature T)" by blast
  have "verify_signature demo_nacl_verify T (pubkey (demo_identity ''k1''))"
    using v[of "''k1''"] sg by (simp add: demo_identity_def demo_nacl_verify_def)
  moreover have "\<not> verify_signature demo_nacl_verify T (pubkey (demo_identity ''k2''))"
    using v[of "''k2''"] sg by (simp add: demo_identity_def demo_nacl_verify_def demo_sign_def)
  ultimately show ?thesis using T sg by blast
qed

text \<open>
  Claim C2 as stated fails on the sync nodes: \<^verbatim>\<open>SignedThought.sign\<close> signs the canonical
  form of the content fields and \<^verbatim>\<open>_verify_signature\<close> checks the signature against that
  message, so a thought is accepted whose signature is not a signature of its CID.
\<close>

lemma node_verify_registered:
  assumes "\<not> (type t = ''identity'' \<and> created_by t = ''GENESIS'')"
    and "map_of pks (created_by t) = Some (JStr k)"
  shows "node_verify_signature dumps ed25519_verify_b64 pks t
         = Inr (ed25519_verify_b64 k (signature t)
                  (dumps (JObj (sign_data (type t) (content t) (created_by t) (because t)
                                   (created_at t) (visibility t)))))"
  using assms by (auto simp: node_verify_signature_def Let_def)

theorem node_signature_not_over_cid_counterexample:
  "\<exists>T. to_dict (sign demo_dumps rev demo_sign unsigned_note ''k1'') = Some T
     \<and> node_verify_signature demo_dumps demo_verify [(''baf_alice'', JStr ''k1'')] T = Inr True
     \<and> \<not> demo_verify ''k1'' (signature T) (cid T)"
  by (simp add: to_dict_def sign_def Let_def unsigned_note_def node_verify_signature_def
      demo_verify_def demo_sign_def sign_data_def compute_cid_def)

section \<open>Trust under changes of the graph\<close>




































declare compute_trust_c.simps [simp del] repeater_loop.simps [simp del]
  transitive_loop.simps [simp del]









declare compute_trust_c.simps [simp] repeater_loop.simps [simp] transitive_loop.simps [simp]







lemma demo_repeater_graph_fields:
  "edges demo_repeater_graph
     = [(''O'', [(''R1'', 1/10), (''R2'', 1)]), (''R1'', [(''T'', 1/10)]), (''R2'', [(''T'', 1)])]"
  "repeaters demo_repeater_graph = [(''O'', [(''R1'', [''climate'']), (''R2'', [''climate''])])]"
  "cache demo_repeater_graph = Map.empty"
  by (simp_all add: demo_repeater_graph_def designate_repeater_def add_edge_def
      TrustGraphWithRepeaters_init_def edges_of_def)






section \<open>Repeater shortcuts\<close>

lemma cache_frame_refl: "cache_frame t c c"
  by (simp add: cache_frame_def)

lemma cache_frame_upd: "cache_frame t c c1 \<Longrightarrow> cache_frame t c (c1((x, t, False) \<mapsto> v))"
  by (simp add: cache_frame_def)

lemma cache_frame_trans: "cache_frame t c c1 \<Longrightarrow> cache_frame t c1 c2 \<Longrightarrow> cache_frame t c c2"
  by (simp add: cache_frame_def)

lemma cache_agree_upd:
  "cache_agree t c c' \<Longrightarrow> cache_agree t (c(k \<mapsto> v)) (c'(k \<mapsto> v))"
  by (simp add: cache_agree_def)

lemma cache_agree_refl: "cache_agree t c c"
  by (simp add: cache_agree_def)

lemma run_unchanged:
  assumes "\<And>c0. cache_agree t c c0 \<Longrightarrow> F c0 = (v, c0)"
  shows "cache_frame t c (snd (F c)) \<and> (\<forall>c'. cache_agree t c c' \<longrightarrow> same_run t (F c) (F c'))"
  using assms[OF cache_agree_refl] assms by (auto simp: same_run_def cache_frame_refl)

lemma run_updated:
  assumes "\<And>c0. cache_agree t c c0 \<Longrightarrow> F c0 = (v, c0((x, t, False) \<mapsto> v))"
  shows "cache_frame t c (snd (F c)) \<and> (\<forall>c'. cache_agree t c c' \<longrightarrow> same_run t (F c) (F c'))"
  using assms[OF cache_agree_refl] assms
  by (auto simp: same_run_def cache_frame_refl intro!: cache_frame_upd cache_agree_upd)

lemma no_repeaters_frame:
  shows "\<not> use_repeaters \<Longrightarrow>
           cache_frame to_cid c
             (snd (compute_trust_c es reps c from_cid to_cid use_repeaters domain visited depth dec))
           \<and> (\<forall>c'. cache_agree to_cid c c' \<longrightarrow>
                 same_run to_cid
                   (compute_trust_c es reps c from_cid to_cid use_repeaters domain visited depth dec)
                   (compute_trust_c es reps c' from_cid to_cid use_repeaters domain visited depth dec))"
    and "repeater_loop es1 reps1 c1 from_cid1 to_cid1 domain1 dec1 items1
           = repeater_loop es1 reps1 c1 from_cid1 to_cid1 domain1 dec1 items1"
    and "\<not> use_repeaters2 \<Longrightarrow>
           cache_frame to_cid2 c2
             (snd (transitive_loop es2 reps2 c2 to_cid2 use_repeaters2 domain2 visited2 depth2 dec2
                     items2 best2))
           \<and> (\<forall>c'. cache_agree to_cid2 c2 c' \<longrightarrow>
                 same_run to_cid2
                   (transitive_loop es2 reps2 c2 to_cid2 use_repeaters2 domain2 visited2 depth2 dec2
                      items2 best2)
                   (transitive_loop es2 reps2 c' to_cid2 use_repeaters2 domain2 visited2 depth2 dec2
                      items2 best2))"
proof (induction es reps c from_cid to_cid use_repeaters domain visited depth dec
         and es1 reps1 c1 from_cid1 to_cid1 domain1 dec1 items1
         and es2 reps2 c2 to_cid2 use_repeaters2 domain2 visited2 depth2 dec2 items2 best2
       rule: compute_trust_c_repeater_loop_transitive_loop.induct)
  case (1 es reps c from_cid to_cid use_repeaters domain visited depth dec)
  from "1.prems" have ur: "use_repeaters = False" by simp
  let ?ct = "\<lambda>c0. compute_trust_c es reps c0 from_cid to_cid False domain visited depth dec"
  have look: "c0 (from_cid, to_cid, False) = c (from_cid, to_cid, False)"
    if "cache_agree to_cid c c0" for c0
    using that by (simp add: cache_agree_def)
  have goal: "cache_frame to_cid c (snd (?ct c))
              \<and> (\<forall>c'. cache_agree to_cid c c' \<longrightarrow> same_run to_cid (?ct c) (?ct c'))"
  proof (cases "from_cid = to_cid")
    case True
    show ?thesis by (rule run_unchanged[where v = 1]) (simp add: True)
  next
    case ne: False
    show ?thesis
    proof (cases "c (from_cid, to_cid, False)")
      case (Some t)
      show ?thesis
        by (rule run_unchanged[where v = t]) (use ne Some look in simp)
    next
      case None
      show ?thesis
      proof (cases "from_cid \<in> visited \<or> depth > 10")
        case True
        show ?thesis
          by (rule run_unchanged[where v = 0]) (use ne None look True in auto)
      next
        case ok: False
        show ?thesis
        proof (cases "map_of es from_cid")
          case no_edges: None
          show ?thesis
            by (rule run_unchanged[where v = 0]) (use ne None look ok no_edges in simp)
        next
          case (Some out)
          note out = this
          show ?thesis
          proof (cases "map_of out to_cid")
            case (Some trust)
            show ?thesis
              by (rule run_updated[where v = trust and x = from_cid])
                 (use ne None look ok out Some in simp)
          next
            case no_direct: None
            let ?tl = "\<lambda>c. transitive_loop es reps c to_cid False domain
                            (insert from_cid visited) depth dec out 0"
            have ih: "cache_frame to_cid c (snd (?tl c))
                      \<and> (\<forall>c'. cache_agree to_cid c c' \<longrightarrow> same_run to_cid (?tl c) (?tl c'))"
              using "1.IH"(2)[of "insert from_cid visited" "(None, c)" None c out]
                ne None ok out no_direct ur
              by simp
            have eq: "?ct c0 = (fst (?tl c0), (snd (?tl c0))((from_cid, to_cid, False) \<mapsto> fst (?tl c0)))"
              if "cache_agree to_cid c c0" for c0
              using ne ok out no_direct None look[OF that]
              by (simp add: Let_def split: prod.splits)
            have "cache_frame to_cid c ((snd (?tl c))((from_cid, to_cid, False) \<mapsto> fst (?tl c)))"
              using ih by (simp add: cache_frame_upd)
            moreover have "same_run to_cid
                       (fst (?tl c), (snd (?tl c))((from_cid, to_cid, False) \<mapsto> fst (?tl c)))
                       (fst (?tl c'), (snd (?tl c'))((from_cid, to_cid, False) \<mapsto> fst (?tl c')))"
              if "cache_agree to_cid c c'" for c'
              using ih that by (auto simp: same_run_def intro!: cache_agree_upd)
            ultimately show ?thesis using eq[OF cache_agree_refl] eq by auto
          qed
        qed
      qed
    qed
  qed
  then show ?case unfolding ur by simp
next
  case (2 es reps c from_cid to_cid domain dec)
  show ?case by simp
next
  case (3 es reps c from_cid to_cid domain dec repeater_cid domains rest)
  show ?case by simp
next
  case (4 es reps c to_cid use_repeaters domain visited depth dec best_trust)
  show ?case by (simp add: same_run_def cache_frame_refl)
next
  case (5 es reps c to_cid use_repeaters domain visited depth dec intermediate weight rest best_trust)
  note nr = "5.prems"
  show ?case
  proof (cases "0 < weight \<and> intermediate \<notin> visited")
    case False
    have eq: "\<And>c0. transitive_loop es reps c0 to_cid use_repeaters domain visited depth dec
                       ((intermediate, weight) # rest) best_trust
                   = transitive_loop es reps c0 to_cid use_repeaters domain visited depth dec
                       rest best_trust"
      by (subst transitive_loop.simps(2)) (simp only: False if_False)
    from "5.IH"(3)[OF False nr] show ?thesis unfolding eq by blast
  next
    case True
    let ?ct = "\<lambda>c. compute_trust_c es reps c intermediate to_cid use_repeaters domain visited
                    (depth + 1) dec"
    let ?nb = "\<lambda>c. if best_trust < weight * fst (?ct c) * dec then weight * fst (?ct c) * dec
                    else best_trust"
    let ?tl = "\<lambda>c b. transitive_loop es reps c to_cid use_repeaters domain visited depth dec rest b"
    have ih1: "cache_frame to_cid c (snd (?ct c))
               \<and> (\<forall>c'. cache_agree to_cid c c' \<longrightarrow> same_run to_cid (?ct c) (?ct c'))"
      by (rule "5.IH"(1)[OF True nr])
    have ih2: "cache_frame to_cid (snd (?ct c)) (snd (?tl (snd (?ct c)) (?nb c)))
               \<and> (\<forall>c'. cache_agree to_cid (snd (?ct c)) c' \<longrightarrow>
                     same_run to_cid (?tl (snd (?ct c)) (?nb c)) (?tl c' (?nb c)))"
      by (rule "5.IH"(2)[OF True _ refl nr, of "fst (?ct c)" "snd (?ct c)"]) simp
    have eq: "\<And>c0. transitive_loop es reps c0 to_cid use_repeaters domain visited depth dec
                       ((intermediate, weight) # rest) best_trust
                   = ?tl (snd (?ct c0)) (?nb c0)"
      by (subst transitive_loop.simps(2)) (simp only: True if_True Let_def case_prod_beta simp_thms)
    have "cache_frame to_cid c (snd (?tl (snd (?ct c)) (?nb c)))"
      using ih1 ih2 cache_frame_trans by blast
    moreover have "same_run to_cid (?tl (snd (?ct c)) (?nb c)) (?tl (snd (?ct c')) (?nb c'))"
      if a: "cache_agree to_cid c c'" for c'
    proof -
      from ih1 a have s: "same_run to_cid (?ct c) (?ct c')" by blast
      then have "?nb c' = ?nb c" by (simp add: same_run_def)
      moreover from s have "cache_agree to_cid (snd (?ct c)) (snd (?ct c'))"
        by (simp add: same_run_def)
      ultimately show ?thesis using ih2 by simp
    qed
    ultimately show ?thesis unfolding eq by blast
  qed
qed


lemma repeater_loop_skip:
  "\<forall>(r, ds) \<in> set pre. \<not> domain_matches domain ds \<Longrightarrow>
     repeater_loop es reps c from_cid to_cid domain dec (pre @ rest)
       = repeater_loop es reps c from_cid to_cid domain dec rest"
  by (induction pre) auto

lemma second_leg_fresh:
  "fst (compute_trust_c es reps
          (snd (compute_trust_c es reps Map.empty a r False None {} 0 dec)) r b False None {} 0 dec)
   = trust_without_repeaters es reps r b dec"
proof (cases "b = r")
  case True
  then show ?thesis by (simp add: trust_without_repeaters_def)
next
  case False
  let ?c1 = "snd (compute_trust_c es reps Map.empty a r False None {} 0 dec)"
  have "cache_frame r Map.empty ?c1"
    using no_repeaters_frame(1)[of False r Map.empty es reps a None "{}" 0 dec] by simp
  then have "cache_agree b Map.empty ?c1"
    using False by (simp add: cache_frame_def cache_agree_def)
  with no_repeaters_frame(1)[of False b Map.empty es reps r None "{}" 0 dec]
  have "same_run b (compute_trust_c es reps Map.empty r b False None {} 0 dec)
                   (compute_trust_c es reps ?c1 r b False None {} 0 dec)" by blast
  then show ?thesis by (simp add: same_run_def trust_without_repeaters_def)
qed

lemma repeater_reset_c:
  assumes "from_cid \<noteq> to_cid"
    and "map_of reps from_cid = Some (pre @ (r, domains) # rest)"
    and "\<forall>(r', ds) \<in> set pre. \<not> domain_matches domain ds"
    and "domain_matches domain domains"
    and "0 < trust_without_repeaters es reps from_cid r dec"
    and "0 < trust_without_repeaters es reps r to_cid dec"
  shows "fst (compute_trust_c es reps Map.empty from_cid to_cid True domain {} 0 dec)
         = trust_without_repeaters es reps from_cid r dec
           * trust_without_repeaters es reps r to_cid dec"
proof -
  let ?r1 = "compute_trust_c es reps Map.empty from_cid r False None {} 0 dec"
  let ?r2 = "compute_trust_c es reps (snd ?r1) r to_cid False None {} 0 dec"
  have t1: "fst ?r1 = trust_without_repeaters es reps from_cid r dec"
    by (simp add: trust_without_repeaters_def)
  have t2: "fst ?r2 = trust_without_repeaters es reps r to_cid dec"
    by (rule second_leg_fresh)
  have loop: "repeater_loop es reps Map.empty from_cid to_cid domain dec (pre @ (r, domains) # rest)
              = (Some (fst ?r1 * fst ?r2), snd ?r2)"
    unfolding repeater_loop_skip[OF assms(3)]
    by (subst repeater_loop.simps(2))
       (simp only: assms(4) if_True case_prod_beta assms(5,6)[folded t1 t2])
  have "compute_trust_c es reps Map.empty from_cid to_cid True domain {} 0 dec
        = (fst ?r1 * fst ?r2, (snd ?r2)((from_cid, to_cid, True) \<mapsto> fst ?r1 * fst ?r2))"
    by (subst compute_trust_c.simps) (simp add: assms(1,2) loop del: compute_trust_c.simps)
  then show ?thesis using t1 t2 by (simp del: compute_trust_c.simps)
qed

text \<open>
  Claim C7, as amended. For observer \<open>O\<close>, target \<open>T \<noteq> O\<close> and a query domain, let \<open>R\<close> be
  the first repeater in \<open>O\<close>'s designation order whose domains match. If \<open>trust(O, R) > 0\<close> and
  \<open>trust(R, T) > 0\<close>, both computed without repeaters, with a fresh visited set and an empty
  cache, then on a cleared cache the repeater-aware trust of \<open>O\<close> in \<open>T\<close> is exactly
  \<open>trust(O, R) \<times> trust(R, T)\<close>: no decay factor is applied at the junction, and the cache that
  the first leg leaves does not change the second.
\<close>

theorem repeater_reset:
  assumes "from_cid \<noteq> to_cid"
    and "cache g = Map.empty"
    and "map_of (repeaters g) from_cid = Some (pre @ (r, domains) # rest)"
    and "\<forall>(r', ds) \<in> set pre. \<not> domain_matches domain ds"
    and "domain_matches domain domains"
    and "0 < trust_without_repeaters (edges g) (repeaters g) from_cid r 0.8"
    and "0 < trust_without_repeaters (edges g) (repeaters g) r to_cid 0.8"
  shows "fst (compute_trust_r g from_cid to_cid True domain)
         = trust_without_repeaters (edges g) (repeaters g) from_cid r 0.8
           * trust_without_repeaters (edges g) (repeaters g) r to_cid 0.8"
  using repeater_reset_c[OF assms(1,3,4,5,6,7)]
  by (simp only: compute_trust_r_def assms(2) case_prod_beta fst_conv)

lemma demo_legs:
  "trust_without_repeaters (edges demo_repeater_graph) (repeaters demo_repeater_graph)
        ''O'' ''R1'' dec = 1 / 10"
  "trust_without_repeaters (edges demo_repeater_graph) (repeaters demo_repeater_graph)
        ''R1'' ''T'' dec = 1 / 10"
  by (simp_all add: trust_without_repeaters_def demo_repeater_graph_fields)

theorem repeater_reset_witness:
  "''O'' \<noteq> ''T'' \<and> cache demo_repeater_graph = Map.empty
   \<and> map_of (repeaters demo_repeater_graph) ''O''
       = Some ([] @ (''R1'', [''climate'']) # [(''R2'', [''climate''])])
   \<and> domain_matches (Some ''climate'') [''climate'']
   \<and> trust_without_repeaters (edges demo_repeater_graph) (repeaters demo_repeater_graph)
        ''O'' ''R1'' 0.8 = 1 / 10
   \<and> trust_without_repeaters (edges demo_repeater_graph) (repeaters demo_repeater_graph)
        ''R1'' ''T'' 0.8 = 1 / 10
   \<and> fst (compute_trust_r demo_repeater_graph ''O'' ''T'' True (Some ''climate'')) = 1 / 10 * (1 / 10)"
proof -
  have h: "''O'' \<noteq> ''T''" "cache demo_repeater_graph = Map.empty"
    "map_of (repeaters demo_repeater_graph) ''O''
       = Some ([] @ (''R1'', [''climate'']) # [(''R2'', [''climate''])])"
    "\<forall>(r', ds) \<in> set []. \<not> domain_matches (Some ''climate'') ds"
    "domain_matches (Some ''climate'') [''climate'']"
    by (simp_all add: demo_repeater_graph_fields domain_matches_def)
  have p: "0 < trust_without_repeaters (edges demo_repeater_graph) (repeaters demo_repeater_graph)
        ''O'' ''R1'' 0.8"
    "0 < trust_without_repeaters (edges demo_repeater_graph) (repeaters demo_repeater_graph)
        ''R1'' ''T'' 0.8"
    by (simp_all add: demo_legs)
  have "fst (compute_trust_r demo_repeater_graph ''O'' ''T'' True (Some ''climate'')) = 1 / 10 * (1 / 10)"
    using repeater_reset[OF h p] by (simp only: demo_legs)
  with h(1,2,3,5) demo_legs[where dec = "0.8"] show ?thesis by auto
qed

text \<open>
  Claim C7 as stated fails for a repeater that is not the first to qualify: the function
  returns at the first designated repeater with positive trust on both legs, here with score
  0.01, although the product through the second designated repeater is 1.
\<close>

theorem repeater_first_match_counterexample:
  "fst (compute_trust_r demo_repeater_graph ''O'' ''T'' True (Some ''climate'')) = 1 / 100
   \<and> fst (compute_trust_r demo_repeater_graph ''O'' ''R2'' False None) = 1
   \<and> fst (compute_trust_r demo_repeater_graph ''R2'' ''T'' False None) = 1
   \<and> domain_matches (Some ''climate'') [''climate'']
   \<and> map_of (repeaters demo_repeater_graph) ''O''
       = Some [(''R1'', [''climate'']), (''R2'', [''climate''])]"
  by (simp add: compute_trust_r_def demo_repeater_graph_fields domain_matches_def)

end
